theory Spec2Isabelle
  imports Main "HOL-Library.Sublist"
begin

section \<open>Syntax trees\<close>

text \<open>
  The Referencer of packages/scope-manager/src/Referencer.ts walks an ESTree syntax tree.
  A node is a value of the datatype below: one constructor per node type that the
  Referencer, its Importer or the pattern decomposer treats specially, and \<open>OtherNode\<close>
  (the node type and the children in visitor-key order) for every other node type.
  An absent (null) child is \<open>None\<close>; holes of an array pattern are left out, since every
  visitor skips a null node.

  The source compares nodes by identity (\<open>node === scope.block\<close>). Here nodes are
  compared as values. A tree is never equal to one of its proper sub-trees, so the two
  agree whenever the nodes compared lie on one path of the tree, which is the case for a
  scope's block and the construct being closed during a walk.
\<close>

datatype node =
    Identifier string
  | Program "node list"
  | FunctionDeclaration "node option" "node list" "node option"
  | FunctionExpression "node option" "node list" "node option"
  | ArrowFunctionExpression "node list" "node option"
  | ClassDeclaration "node option" "node option" node
  | ClassExpression "node option" "node option" node
  | BlockStatement "node list"
  | VariableDeclaration string "node list"
  | VariableDeclarator node "node option"
  | AssignmentExpression string node node
  | AssignmentPattern node node
  | ArrayPattern "node list"
  | ObjectPattern "node list"
  | Property bool node node
  | MethodDefinition bool node node
  | RestElement node
  | MemberExpression bool node node
  | CatchClause "node option" node
  | UpdateExpression node
  | LabeledStatement node node
  | BreakStatement "node option"
  | ContinueStatement "node option"
  | ForStatement "node option" "node option" "node option" node
  | ForInStatement node node node
  | ForOfStatement node node node
  | CallExpression node "node list"
  | ThisExpression
  | WithStatement node node
  | SwitchStatement node "node list"
  | ImportDeclaration "node list" node
  | ImportNamespaceSpecifier node
  | ImportDefaultSpecifier node
  | ImportSpecifier node node
  | ExportNamedDeclaration "node option" "node list" "node option"
  | ExportSpecifier node node
  | MetaProperty node node
  | OtherNode string "node list"

text \<open>A nullable child as the list of the children that are there.\<close>

fun opt :: "node option \<Rightarrow> node list" where
  "opt None = []"
| "opt (Some n) = [n]"

text \<open>
  The children of a node in visitor-key order: what esrecurse's \<open>visitChildren\<close>
  iterates over.
\<close>

fun children :: "node \<Rightarrow> node list" where
  "children (Identifier nm) = []"
| "children (Program body) = body"
| "children (FunctionDeclaration i ps b) = opt i @ ps @ opt b"
| "children (FunctionExpression i ps b) = opt i @ ps @ opt b"
| "children (ArrowFunctionExpression ps b) = ps @ opt b"
| "children (ClassDeclaration i sc b) = opt i @ opt sc @ [b]"
| "children (ClassExpression i sc b) = opt i @ opt sc @ [b]"
| "children (BlockStatement body) = body"
| "children (VariableDeclaration k ds) = ds"
| "children (VariableDeclarator i ini) = i # opt ini"
| "children (AssignmentExpression oper l r) = [l, r]"
| "children (AssignmentPattern l r) = [l, r]"
| "children (ArrayPattern es) = es"
| "children (ObjectPattern ps) = ps"
| "children (Property c k v) = [k, v]"
| "children (MethodDefinition c k v) = [k, v]"
| "children (RestElement a) = [a]"
| "children (MemberExpression c obj p) = [obj, p]"
| "children (CatchClause p b) = opt p @ [b]"
| "children (UpdateExpression a) = [a]"
| "children (LabeledStatement l b) = [l, b]"
| "children (BreakStatement l) = opt l"
| "children (ContinueStatement l) = opt l"
| "children (ForStatement i t u b) = opt i @ opt t @ opt u @ [b]"
| "children (ForInStatement l r b) = [l, r, b]"
| "children (ForOfStatement l r b) = [l, r, b]"
| "children (CallExpression c as) = c # as"
| "children ThisExpression = []"
| "children (WithStatement obj b) = [obj, b]"
| "children (SwitchStatement d cs) = d # cs"
| "children (ImportDeclaration sp src) = sp @ [src]"
| "children (ImportNamespaceSpecifier l) = [l]"
| "children (ImportDefaultSpecifier l) = [l]"
| "children (ImportSpecifier i l) = [i, l]"
| "children (ExportNamedDeclaration d sp src) = opt d @ sp @ opt src"
| "children (ExportSpecifier e l) = [e, l]"
| "children (MetaProperty m p) = [m, p]"
| "children (OtherNode t cs) = cs"

lemma size_opt: "y \<in> set (opt v) \<Longrightarrow> size y \<le> size_option size v"
  by (cases v) auto

lemma size_member: "y \<in> set ys \<Longrightarrow> size (y::node) \<le> size_list size ys"
  by (simp add: size_list_estimation')

lemma size_children: "x \<in> set (children n) \<Longrightarrow> size x < size n"
  by (cases n) (auto dest!: size_opt dest: size_member)

text \<open>Every node of a tree, the root first.\<close>

function subnodes :: "node \<Rightarrow> node list" where
  "subnodes n = n # concat (map subnodes (children n))"
  by pat_completeness auto
termination
  by (relation "measure size") (auto simp: size_children)

declare subnodes.simps [simp del]

section \<open>Bindings and references\<close>

datatype VariableType =
  CatchClauseT | ClassName | FunctionName | ImportBinding | Parameter | Variable

text \<open>
  \<open>new Definition(type, name, node, parent, index, kind)\<close>; a ParameterDefinition
  is a Definition of type Parameter with no parent and no kind that also carries the
  \<open>rest\<close> flag.
\<close>

record Definition =
  dtype :: VariableType
  dname :: node
  dnode :: node
  dparent :: "node option"
  dindex :: "nat option"
  dkind :: "string option"
  drest :: bool

definition mkDefinition ::
  "VariableType \<Rightarrow> node \<Rightarrow> node \<Rightarrow> node option \<Rightarrow> nat option \<Rightarrow> string option \<Rightarrow> Definition" where
  "mkDefinition t nm n p i k =
     \<lparr>dtype = t, dname = nm, dnode = n, dparent = p, dindex = i, dkind = k, drest = False\<rparr>"

definition ParameterDefinition :: "node \<Rightarrow> node \<Rightarrow> nat \<Rightarrow> bool \<Rightarrow> Definition" where
  "ParameterDefinition nm n i r =
     \<lparr>dtype = Parameter, dname = nm, dnode = n, dparent = None, dindex = Some i,
      dkind = None, drest = r\<rparr>"

datatype ReferenceFlag = READ | WRITE | RW

text \<open>
  The arguments of \<open>scope.__referencing(node, assign, writeExpr, maybeImplicitGlobal,
  partial, init)\<close>. An argument that a call leaves out is \<open>None\<close> or \<open>False\<close>, and
  a call without a flag is a read. \<open>ReferenceImplicitGlobal\<close> is the pair of the
  pattern and the node.
\<close>

record Reference =
  ridentifier :: node
  flag :: ReferenceFlag
  writeExpr :: "node option"
  maybeImplicitGlobal :: "(node \<times> node) option"
  partial :: bool
  init :: bool

definition mkReference ::
  "node \<Rightarrow> ReferenceFlag \<Rightarrow> node option \<Rightarrow> (node \<times> node) option \<Rightarrow> bool \<Rightarrow> bool \<Rightarrow> Reference" where
  "mkReference n f w g p i =
     \<lparr>ridentifier = n, flag = f, writeExpr = w, maybeImplicitGlobal = g, partial = p, init = i\<rparr>"

section \<open>The pattern decomposer\<close>

text \<open>
  Modelled from the spec: \<open>PatternVisitor.isPattern\<close> (./PatternVisitor) is not among
  the sources. The left side of an assignment is a pattern when it is a name or one of
  the pattern forms that the decomposer takes apart.
\<close>

fun isPattern :: "node \<Rightarrow> bool" where
  "isPattern (Identifier nm) = True"
| "isPattern (ObjectPattern ps) = True"
| "isPattern (ArrayPattern es) = True"
| "isPattern (RestElement a) = True"
| "isPattern (AssignmentPattern l r) = True"
| "isPattern n = False"

text \<open>
  What the callback of a pattern visit receives with a leaf: whether the leaf is the
  root pattern, whether it is the argument of a rest element, and the assignment
  patterns around it, the outermost first.
\<close>

record PatternInfo =
  topLevel :: bool
  rest :: bool
  assignments :: "node list"

text \<open>
  Modelled from the spec: the class PatternVisitor (./PatternVisitor) is not among the
  sources. The decomposer calls the callback once per leaf name of a binding or
  assignment pattern, from left to right and from the outside in, and collects the
  default values and the computed keys as the right-hand nodes that need an ordinary
  visit. It changes no scope and no binding. A node that is no pattern has no leaf and
  no right-hand node.

  \<open>leaves\<close> gives the leaves with the information passed to the callback;
  the arguments are the top-level flag, the rest flag and the assignment patterns that
  are open. \<open>rightHandNodes\<close> gives the collected nodes in collection order.
\<close>

fun leaves :: "bool \<Rightarrow> bool \<Rightarrow> node list \<Rightarrow> node \<Rightarrow> (node \<times> PatternInfo) list" where
  "leaves tpl rst asg (Identifier nm) =
     [(Identifier nm, \<lparr>topLevel = tpl, rest = rst, assignments = asg\<rparr>)]"
| "leaves tpl rst asg (ObjectPattern ps) = concat (map (leaves False False asg) ps)"
| "leaves tpl rst asg (ArrayPattern es) = concat (map (leaves False False asg) es)"
| "leaves tpl rst asg (Property c k v) = leaves False False asg v"
| "leaves tpl rst asg (AssignmentPattern l r) =
     leaves False False (asg @ [AssignmentPattern l r]) l"
| "leaves tpl rst asg (RestElement a) = leaves False True asg a"
| "leaves tpl rst asg n = []"

fun rightHandNodes :: "node \<Rightarrow> node list" where
  "rightHandNodes (ObjectPattern ps) = concat (map rightHandNodes ps)"
| "rightHandNodes (ArrayPattern es) = concat (map rightHandNodes es)"
| "rightHandNodes (Property c k v) = (if c then [k] else []) @ rightHandNodes v"
| "rightHandNodes (AssignmentPattern l r) = rightHandNodes l @ [r]"
| "rightHandNodes (RestElement a) = rightHandNodes a"
| "rightHandNodes n = []"

text \<open>The leaves of a root pattern.\<close>

definition patternLeaves :: "node \<Rightarrow> (node \<times> PatternInfo) list" where
  "patternLeaves p = leaves True False [] p"

section \<open>Scopes and the scope manager\<close>

datatype ScopeType =
  Global | Module | Function | FunctionExpressionName | Block | Switch | Catch | With
  | Class | For

text \<open>
  A scope. The scopes of a run are kept in the order of their creation, and a scope is
  named by its position there; \<open>upper\<close> and \<open>variableScope\<close> are such positions.
  \<open>variables\<close> holds the bindings in definition order, each with the name node it was
  defined for.
\<close>

record Scope =
  stype :: ScopeType
  block :: node
  upper :: "nat option"
  variableScope :: nat
  isStrict :: bool
  variables :: "(node \<times> Definition) list"
  references :: "Reference list"
  through :: "Reference list"
  dynamic :: bool
  thisFound :: bool

text \<open>
  The flags of the scope manager, fixed when it is built, as the Referencer asks for
  them: \<open>__isNodejsScope()\<close>, \<open>__isES6()\<close>, \<open>isModule()\<close>,
  \<open>isStrictModeSupported()\<close>, \<open>isImpliedStrict()\<close> and \<open>__ignoreEval()\<close>.
  How a scope finds its strictness when it is created (directives, the strictness of the
  scope above, a method definition) is decided by a scope class that is not among the
  sources; it is the parameter \<open>strictAtCreation\<close>, which is given the scope type, the
  block, the method-definition flag and the scope above.
\<close>

record Options =
  nodejsScope :: bool
  es6 :: bool
  isModule :: bool
  strictModeSupported :: bool
  impliedStrict :: bool
  ignoreEval :: bool
  strictAtCreation :: "ScopeType \<Rightarrow> node \<Rightarrow> bool \<Rightarrow> Scope option \<Rightarrow> bool"

text \<open>
  The state of a walk: every scope created so far, the open scopes (the chain from
  \<open>scopeManager.__currentScope\<close> upwards, the current scope first), and the
  Referencer's \<open>isInnerMethodDefinition\<close>.
\<close>

record Referencer =
  scopes :: "Scope list"
  currentScopes :: "nat list"
  isInnerMethodDefinition :: bool

datatype error = AssertionError string | TypeError

definition andThen :: "error + 'a \<Rightarrow> ('a \<Rightarrow> error + 'b) \<Rightarrow> error + 'b" where
  "andThen r f = (case r of Inl e \<Rightarrow> Inl e | Inr x \<Rightarrow> f x)"

text \<open>\<open>currentScope(true)\<close>: the assertion fails when no scope is open.\<close>

definition currentScope :: "Referencer \<Rightarrow> error + nat" where
  "currentScope s =
     (case currentScopes s of [] \<Rightarrow> Inl (AssertionError []) | c # cs \<Rightarrow> Inr c)"

definition isVariableScopeType :: "ScopeType \<Rightarrow> bool" where
  "isVariableScopeType t = (t = Function \<or> t = Global \<or> t = Module)"

text \<open>
  Modelled from the spec: the scope manager's nesting operations (./ScopeManager) are
  not among the sources. Nesting pushes a new scope whose \<open>upper\<close> is the current scope;
  a Function, Global or Module scope is its own \<open>variableScope\<close>, every other scope
  inherits that of its parent (and is its own when there is no parent). The new scope
  starts with the given bindings and no reference.
\<close>

definition nest ::
  "Options \<Rightarrow> ScopeType \<Rightarrow> node \<Rightarrow> bool \<Rightarrow> (node \<times> Definition) list \<Rightarrow> Referencer \<Rightarrow> Referencer" where
  "nest opts t blk isMethodDefinition vars s =
     (let i = length (scopes s);
          up = (case currentScopes s of [] \<Rightarrow> None | c # cs \<Rightarrow> Some c);
          vs = (if isVariableScopeType t then i
                else (case up of None \<Rightarrow> i | Some c \<Rightarrow> variableScope (scopes s ! c)));
          sc = \<lparr>stype = t, block = blk, upper = up, variableScope = vs,
                isStrict = strictAtCreation opts t blk isMethodDefinition
                             (map_option (\<lambda>c. scopes s ! c) up),
                variables = vars, references = [], through = [],
                dynamic = False, thisFound = False\<rparr>
      in s\<lparr>scopes := scopes s @ [sc], currentScopes := i # currentScopes s\<rparr>)"

definition nestGlobalScope :: "Options \<Rightarrow> node \<Rightarrow> Referencer \<Rightarrow> Referencer" where
  "nestGlobalScope opts n = nest opts Global n False []"

definition nestModuleScope :: "Options \<Rightarrow> node \<Rightarrow> Referencer \<Rightarrow> Referencer" where
  "nestModuleScope opts n = nest opts Module n False []"

definition nestFunctionScope :: "Options \<Rightarrow> node \<Rightarrow> bool \<Rightarrow> Referencer \<Rightarrow> Referencer" where
  "nestFunctionScope opts n isMethodDefinition = nest opts Function n isMethodDefinition []"

definition nestBlockScope :: "Options \<Rightarrow> node \<Rightarrow> Referencer \<Rightarrow> Referencer" where
  "nestBlockScope opts n = nest opts Block n False []"

definition nestSwitchScope :: "Options \<Rightarrow> node \<Rightarrow> Referencer \<Rightarrow> Referencer" where
  "nestSwitchScope opts n = nest opts Switch n False []"

definition nestCatchScope :: "Options \<Rightarrow> node \<Rightarrow> Referencer \<Rightarrow> Referencer" where
  "nestCatchScope opts n = nest opts Catch n False []"

definition nestWithScope :: "Options \<Rightarrow> node \<Rightarrow> Referencer \<Rightarrow> Referencer" where
  "nestWithScope opts n = nest opts With n False []"

definition nestClassScope :: "Options \<Rightarrow> node \<Rightarrow> Referencer \<Rightarrow> Referencer" where
  "nestClassScope opts n = nest opts Class n False []"

definition nestForScope :: "Options \<Rightarrow> node \<Rightarrow> Referencer \<Rightarrow> Referencer" where
  "nestForScope opts n = nest opts For n False []"

text \<open>The name of a function or class node, when it has one.\<close>

fun nodeId :: "node \<Rightarrow> node option" where
  "nodeId (FunctionDeclaration i ps b) = i"
| "nodeId (FunctionExpression i ps b) = i"
| "nodeId (ClassDeclaration i sc b) = i"
| "nodeId (ClassExpression i sc b) = i"
| "nodeId n = None"

text \<open>
  Modelled from the spec: the FunctionExpressionName scope of a named function expression
  has one variable, the function's own name, bound to the function.
\<close>

definition nestFunctionExpressionNameScope :: "Options \<Rightarrow> node \<Rightarrow> Referencer \<Rightarrow> Referencer" where
  "nestFunctionExpressionNameScope opts n =
     nest opts FunctionExpressionName n False
       (map (\<lambda>i. (i, mkDefinition FunctionName i n None None None)) (opt (nodeId n)))"

text \<open>
  Modelled from the spec: the methods of a scope (./scope) are not among the sources.
  \<open>__define\<close> records a binding in the scope and \<open>__referencing\<close> a reference, each
  after those recorded before; \<open>__detectEval\<close> marks the scope as dynamically extended
  and \<open>__detectThis\<close> as using \<open>this\<close>.
\<close>

definition updScope :: "nat \<Rightarrow> (Scope \<Rightarrow> Scope) \<Rightarrow> Referencer \<Rightarrow> Referencer" where
  "updScope i f s = s\<lparr>scopes := (scopes s)[i := f (scopes s ! i)]\<rparr>"

definition scope_define :: "nat \<Rightarrow> node \<Rightarrow> Definition \<Rightarrow> Referencer \<Rightarrow> Referencer" where
  "scope_define i p d = updScope i (\<lambda>sc. sc\<lparr>variables := variables sc @ [(p, d)]\<rparr>)"

definition referencing :: "nat \<Rightarrow> Reference \<Rightarrow> Referencer \<Rightarrow> Referencer" where
  "referencing i r = updScope i (\<lambda>sc. sc\<lparr>references := references sc @ [r]\<rparr>)"

definition detectEval :: "nat \<Rightarrow> Referencer \<Rightarrow> Referencer" where
  "detectEval i = updScope i (\<lambda>sc. sc\<lparr>dynamic := True\<rparr>)"

definition detectThis :: "nat \<Rightarrow> Referencer \<Rightarrow> Referencer" where
  "detectThis i = updScope i (\<lambda>sc. sc\<lparr>thisFound := True\<rparr>)"

definition setStrict :: "nat \<Rightarrow> bool \<Rightarrow> Referencer \<Rightarrow> Referencer" where
  "setStrict i b = updScope i (\<lambda>sc. sc\<lparr>isStrict := b\<rparr>)"

text \<open>The names a scope declares.\<close>

fun nodeName :: "node \<Rightarrow> string option" where
  "nodeName (Identifier nm) = Some nm"
| "nodeName n = None"

definition declares :: "Scope \<Rightarrow> node \<Rightarrow> bool" where
  "declares sc n =
     (case nodeName n of None \<Rightarrow> False
      | Some nm \<Rightarrow> Some nm \<in> set (map (\<lambda>(p, d). nodeName p) (variables sc)))"

text \<open>
  Modelled from the spec: \<open>scope.__close\<close>. The references of the closing scope, its
  own and those forwarded to it, are resolved by name against its variables; those it
  does not declare are forwarded to the \<open>through\<close> list of the scope above, when there is
  one. The scope is popped, so that the scope above is current again.
\<close>

definition closeScope :: "Referencer \<Rightarrow> Referencer" where
  "closeScope s =
     (case currentScopes s of
        [] \<Rightarrow> s
      | c # cs \<Rightarrow>
          (let sc = scopes s ! c;
               unresolved = filter (\<lambda>r. \<not> declares sc (ridentifier r)) (references sc @ through sc);
               s' = (case cs of
                       [] \<Rightarrow> s
                     | u # us \<Rightarrow> updScope u (\<lambda>usc. usc\<lparr>through := through usc @ unresolved\<rparr>) s)
           in s'\<lparr>currentScopes := cs\<rparr>))"

section \<open>The Referencer\<close>

text \<open>
  \<open>Referencer.close\<close>: while a scope is open and the node is its block, close it.
\<close>

function close :: "node \<Rightarrow> Referencer \<Rightarrow> Referencer" where
  "close n s =
     (case currentScopes s of
        [] \<Rightarrow> s
      | c # cs \<Rightarrow> if n = block (scopes s ! c) then close n (closeScope s) else s)"
  by pat_completeness auto
termination
  by (relation "measure (\<lambda>(n, s). length (currentScopes s))")
     (auto simp: closeScope_def Let_def split: list.splits)

declare close.simps [simp del]

text \<open>\<open>pushInnerMethodDefinition\<close> returns the flag it replaces.\<close>

definition pushInnerMethodDefinition :: "bool \<Rightarrow> Referencer \<Rightarrow> bool \<times> Referencer" where
  "pushInnerMethodDefinition b s = (isInnerMethodDefinition s, s\<lparr>isInnerMethodDefinition := b\<rparr>)"

definition popInnerMethodDefinition :: "bool \<Rightarrow> Referencer \<Rightarrow> Referencer" where
  "popInnerMethodDefinition b s = s\<lparr>isInnerMethodDefinition := b\<rparr>"

text \<open>The two sides of an assignment pattern (or assignment expression).\<close>

fun assignmentLeft :: "node \<Rightarrow> node option" where
  "assignmentLeft (AssignmentPattern l r) = Some l"
| "assignmentLeft (AssignmentExpression oper l r) = Some l"
| "assignmentLeft n = None"

fun assignmentRight :: "node \<Rightarrow> node option" where
  "assignmentRight (AssignmentPattern l r) = Some r"
| "assignmentRight (AssignmentExpression oper l r) = Some r"
| "assignmentRight n = None"

text \<open>
  \<open>referencingDefaultValue\<close>: one write reference to the pattern per assignment around
  it, with the assignment's right side as the value written; the reference is partial
  when the pattern is not the assignment's left side itself.
\<close>

fun referencingDefaultValue ::
  "node \<Rightarrow> node list \<Rightarrow> (node \<times> node) option \<Rightarrow> bool \<Rightarrow> Referencer \<Rightarrow> error + Referencer" where
  "referencingDefaultValue pattern [] g ini s = Inr s"
| "referencingDefaultValue pattern (a # as) g ini s =
     andThen (currentScope s) (\<lambda>c.
       referencingDefaultValue pattern as g ini
         (referencing c
            (mkReference pattern WRITE (assignmentRight a) g
               (Some pattern \<noteq> assignmentLeft a) ini) s))"

text \<open>
  A pattern visit calls the callback at every leaf, in order, before any right-hand
  node is visited (\<open>traverseIdentifierInPattern\<close>). \<open>eachLeaf\<close> is that first part.
\<close>

fun eachLeaf ::
  "(node \<Rightarrow> PatternInfo \<Rightarrow> Referencer \<Rightarrow> error + Referencer) \<Rightarrow> (node \<times> PatternInfo) list
     \<Rightarrow> Referencer \<Rightarrow> error + Referencer" where
  "eachLeaf cb [] s = Inr s"
| "eachLeaf cb ((p, info) # ls) s = andThen (cb p info s) (eachLeaf cb ls)"

text \<open>The callback of \<open>visitFunction\<close> for the parameter at position \<open>i\<close>.\<close>

definition parameterCallback ::
  "node \<Rightarrow> nat \<Rightarrow> node \<Rightarrow> PatternInfo \<Rightarrow> Referencer \<Rightarrow> error + Referencer" where
  "parameterCallback n i pattern info s =
     andThen (currentScope s) (\<lambda>c.
       referencingDefaultValue pattern (assignments info) None True
         (scope_define c pattern (ParameterDefinition pattern n i (rest info)) s))"

text \<open>
  The callback of \<open>visitVariableDeclaration\<close>: the leaf is defined in the target scope
  as a Variable that carries the declarator, the declaration, the declarator's index
  and the declaration's kind.
\<close>

definition variableCallback ::
  "nat \<Rightarrow> node \<Rightarrow> string option \<Rightarrow> node \<Rightarrow> nat \<Rightarrow> node option \<Rightarrow> node \<Rightarrow> PatternInfo \<Rightarrow> Referencer
     \<Rightarrow> error + Referencer" where
  "variableCallback variableTargetScope n kind decl index ini pattern info s =
     andThen
       (referencingDefaultValue pattern (assignments info) None True
          (scope_define variableTargetScope pattern
             (mkDefinition Variable pattern decl (Some n) (Some index) kind) s))
       (\<lambda>s1. case ini of
          None \<Rightarrow> Inr s1
        | Some e \<Rightarrow>
            andThen (currentScope s1) (\<lambda>c.
              Inr (referencing c
                     (mkReference pattern WRITE (Some e) None (\<not> topLevel info) True) s1)))"

text \<open>
  The callback of \<open>AssignmentExpression\<close> (operator \<open>=\<close>) and, with \<open>partial\<close> always
  set, of \<open>visitForIn\<close> for a left side that is no declaration.
\<close>

definition assignmentCallback ::
  "node \<Rightarrow> node \<Rightarrow> bool \<Rightarrow> node \<Rightarrow> PatternInfo \<Rightarrow> Referencer \<Rightarrow> error + Referencer" where
  "assignmentCallback n right alwaysPartial pattern info s =
     andThen (currentScope s) (\<lambda>c.
       let maybeImplicitGlobal =
             (if \<not> isStrict (scopes s ! c) then Some (pattern, n) else None)
       in andThen (referencingDefaultValue pattern (assignments info) maybeImplicitGlobal False s)
            (\<lambda>s1. andThen (currentScope s1) (\<lambda>c1.
               Inr (referencing c1
                      (mkReference pattern WRITE (Some right) maybeImplicitGlobal
                         (alwaysPartial \<or> \<not> topLevel info) False) s1))))"

text \<open>The callback of \<open>visitForIn\<close> for a left side that is a declaration.\<close>

definition forInDeclarationCallback ::
  "node \<Rightarrow> node \<Rightarrow> PatternInfo \<Rightarrow> Referencer \<Rightarrow> error + Referencer" where
  "forInDeclarationCallback right pattern info s =
     andThen (currentScope s) (\<lambda>c.
       Inr (referencing c (mkReference pattern WRITE (Some right) None True True) s))"

text \<open>The callback of \<open>CatchClause\<close>.\<close>

definition catchCallback ::
  "node \<Rightarrow> node \<Rightarrow> node \<Rightarrow> PatternInfo \<Rightarrow> Referencer \<Rightarrow> error + Referencer" where
  "catchCallback n param pattern info s =
     andThen (currentScope s) (\<lambda>c.
       referencingDefaultValue pattern (assignments info) None True
         (scope_define c pattern (mkDefinition CatchClauseT param n None None None) s))"

text \<open>
  The Importer visits the import declaration and calls \<open>visitImport\<close> at every import
  specifier, with the specifier's local name; it walks through any other node.
  \<open>importSpecifiers\<close> lists the local names with their specifiers in that order.
\<close>

function importSpecifiers :: "node \<Rightarrow> (node \<times> node) list" where
  "importSpecifiers n =
     (case n of
        ImportNamespaceSpecifier l \<Rightarrow> [(l, n)]
      | ImportDefaultSpecifier l \<Rightarrow> [(l, n)]
      | ImportSpecifier i l \<Rightarrow> [(l, n)]
      | _ \<Rightarrow> concat (map importSpecifiers (children n)))"
  by pat_completeness auto
termination
  by (relation "measure size") (simp, simp_all only: in_measure size_children)

declare importSpecifiers.simps [simp del]

text \<open>\<open>Importer.visitImport\<close>, with the callback it passes to the pattern visit.\<close>

definition importCallback ::
  "node \<Rightarrow> node \<Rightarrow> node \<Rightarrow> PatternInfo \<Rightarrow> Referencer \<Rightarrow> error + Referencer" where
  "importCallback declaration specifier pattern info s =
     andThen (currentScope s) (\<lambda>c.
       Inr (scope_define c pattern
              (mkDefinition ImportBinding pattern specifier (Some declaration) None None) s))"

fun visitImports :: "node \<Rightarrow> (node \<times> node) list \<Rightarrow> Referencer \<Rightarrow> error + Referencer" where
  "visitImports declaration [] s = Inr s"
| "visitImports declaration ((local, specifier) # others) s =
     andThen (eachLeaf (importCallback declaration specifier) (patternLeaves local) s)
       (visitImports declaration others)"

text \<open>Tests and fields of nodes that the Referencer reads on a node of any type.\<close>

fun declaratorId :: "node \<Rightarrow> node option" where
  "declaratorId (VariableDeclarator i ini) = Some i"
| "declaratorId n = None"

fun declaratorInit :: "node \<Rightarrow> node option" where
  "declaratorInit (VariableDeclarator i ini) = ini"
| "declaratorInit n = None"

fun declarationKind :: "node \<Rightarrow> string option" where
  "declarationKind (VariableDeclaration k ds) = Some k"
| "declarationKind n = None"

fun declarations :: "node \<Rightarrow> node list option" where
  "declarations (VariableDeclaration k ds) = Some ds"
| "declarations n = None"

fun isFunctionDeclaration :: "node \<Rightarrow> bool" where
  "isFunctionDeclaration (FunctionDeclaration i ps b) = True"
| "isFunctionDeclaration n = False"

fun isFunctionExpression :: "node \<Rightarrow> bool" where
  "isFunctionExpression (FunctionExpression i ps b) = True"
| "isFunctionExpression n = False"

fun isClassDeclaration :: "node \<Rightarrow> bool" where
  "isClassDeclaration (ClassDeclaration i sc b) = True"
| "isClassDeclaration n = False"

fun isBlockStatement :: "node \<Rightarrow> bool" where
  "isBlockStatement (BlockStatement b) = True"
| "isBlockStatement n = False"

text \<open>
  \<open>node.type === VariableDeclaration && node.kind !== 'var'\<close>, for a node that may be
  absent.
\<close>

fun isLexicalDeclaration :: "node option \<Rightarrow> bool" where
  "isLexicalDeclaration (Some (VariableDeclaration k ds)) = (k \<noteq> ''var'')"
| "isLexicalDeclaration n = False"

fun isEvalCallee :: "node \<Rightarrow> bool" where
  "isEvalCallee (Identifier nm) = (nm = ''eval'')"
| "isEvalCallee n = False"

text \<open>
  The first part of the handler \<open>Program\<close>: the scopes of the program are nested, the
  global scope first, before the children are visited.
\<close>

definition nestProgramScopes :: "Options \<Rightarrow> node \<Rightarrow> Referencer \<Rightarrow> error + Referencer" where
  "nestProgramScopes opts n s =
     andThen
       (let s1 = nestGlobalScope opts n s
        in if nodejsScope opts
           then andThen (currentScope s1) (\<lambda>c.
                  Inr (nestFunctionScope opts n False (setStrict c False s1)))
           else Inr s1)
       (\<lambda>s2.
          let s3 = (if es6 opts \<and> isModule opts then nestModuleScope opts n s2 else s2)
          in if strictModeSupported opts \<and> impliedStrict opts
             then andThen (currentScope s3) (\<lambda>c. Inr (setStrict c True s3))
             else Inr s3)"

text \<open>
  The first part of \<open>visitFunction\<close>: the name of a function declaration is defined in
  the current scope, a named function expression gets its FunctionExpressionName scope,
  and the Function scope is nested.
\<close>

definition nestFunctionScopes :: "Options \<Rightarrow> node \<Rightarrow> Referencer \<Rightarrow> error + Referencer" where
  "nestFunctionScopes opts n s =
     andThen
       (if isFunctionDeclaration n
        then (case nodeId n of
                None \<Rightarrow> Inr s
              | Some i \<Rightarrow>
                  andThen (currentScope s) (\<lambda>c.
                    Inr (scope_define c i (mkDefinition FunctionName i n None None None) s)))
        else Inr s)
       (\<lambda>s1.
          let s2 = (if isFunctionExpression n \<and> nodeId n \<noteq> None
                    then nestFunctionExpressionNameScope opts n s1 else s1)
          in Inr (nestFunctionScope opts n (isInnerMethodDefinition s2) s2))"

text \<open>
  The parts of \<open>visitClass\<close> around the visit of the superclass: before it, the name of
  a class declaration is defined in the current scope; after it, the Class scope is
  nested and the name of the class, when it has one, is defined in the Class scope.
\<close>

definition defineClassDeclaration :: "node \<Rightarrow> Referencer \<Rightarrow> error + Referencer" where
  "defineClassDeclaration n s =
     (if isClassDeclaration n
      then (case nodeId n of
              None \<Rightarrow> Inr s
            | Some i \<Rightarrow>
                andThen (currentScope s) (\<lambda>c.
                  Inr (scope_define c i (mkDefinition ClassName i n None None None) s)))
      else Inr s)"

definition nestNamedClassScope :: "Options \<Rightarrow> node \<Rightarrow> Referencer \<Rightarrow> error + Referencer" where
  "nestNamedClassScope opts n s =
     (let s3 = nestClassScope opts n s
      in case nodeId n of
           None \<Rightarrow> Inr s3
         | Some i \<Rightarrow>
             andThen (currentScope s3) (\<lambda>c.
               Inr (scope_define c i (mkDefinition ClassName i n None None None) s3)))"

text \<open>
  The measure that shows the walk to terminate: eight times the size of the node (or of
  the fields read), with a list of nodes weighed node by node.
\<close>

definition lsize :: "node list \<Rightarrow> nat" where
  "lsize ns = sum_list (map (\<lambda>x. 8 * size x + 3) ns)"

lemma lsize_simps [simp]:
  "lsize [] = 0" "lsize (x # xs) = 8 * size x + 3 + lsize xs" "lsize (xs @ ys) = lsize xs + lsize ys"
  by (simp_all add: lsize_def)

lemma lsize_le: "lsize ns \<le> 8 * size_list size ns"
  by (induction ns) auto

lemma lsize_opt: "lsize (opt v) \<le> 8 * size_option size v"
  by (cases v) auto

lemma size_list_concat: "size_list f (concat xss) = sum_list (map (size_list f) xss)"
  by (induction xss) auto

lemma sum_list_le_size_list:
  "(\<And>x. x \<in> set xs \<Longrightarrow> g x \<le> size x) \<Longrightarrow> sum_list (map g xs) \<le> size_list size (xs :: node list)"
  by (induction xs) (auto simp: add_mono le_SucI)

lemma size_rightHandNodes: "size_list size (rightHandNodes p) \<le> size p"
proof (induction p rule: rightHandNodes.induct)
  case (1 ps)
  then show ?case by (simp add: size_list_concat le_SucI sum_list_le_size_list)
next
  case (2 es)
  then show ?case by (simp add: size_list_concat le_SucI sum_list_le_size_list)
qed auto

lemma lsize_rightHandNodes: "lsize (rightHandNodes p) \<le> 8 * size p"
  using lsize_le [of "rightHandNodes p"] size_rightHandNodes [of p] by linarith

lemma size_list_lsize: "8 * size_list size ns = lsize ns + 5 * length ns"
  by (induction ns) auto

lemma size_option_lsize:
  "8 * size_option size v = lsize (opt v) + 5 + 3 * (1 - length (opt v))"
  by (cases v) auto

lemma lsize_declaratorInit: "lsize (opt (declaratorInit decl)) \<le> 8 * size decl"
  by (cases decl) (auto simp: size_option_lsize)

lemma size_declaratorId: "declaratorId decl = Some q \<Longrightarrow> size q < size decl"
  by (cases decl) auto

lemma lsize_block_children: "isBlockStatement b \<Longrightarrow> lsize (children b) \<le> 8 * size b"
  by (cases b) (auto simp: size_list_lsize)

lemma size_first_declarator:
  "declarations l = Some (d # ds) \<Longrightarrow> declaratorId d = Some q \<Longrightarrow> size q < size l"
  by (cases l) (auto dest!: size_declaratorId)

lemma lsize_rightHandNodes_less: "lsize (rightHandNodes p) < Suc (8 * size p)"
  using lsize_rightHandNodes [of p] by simp

definition visit_measure ::
  "((Options \<times> node \<times> Referencer + Options \<times> node list \<times> Referencer) +
     (Options \<times> node option \<times> bool \<times> (node \<Rightarrow> PatternInfo \<Rightarrow> Referencer \<Rightarrow> error + Referencer) \<times> Referencer) +
     (Options \<times> node \<times> node list \<times> nat \<times> Referencer) +
     (Options \<times> nat \<times> node \<times> node list \<times> nat \<times> Referencer)) +
    ((Options \<times> nat \<times> node \<times> node \<times> nat \<times> Referencer) +
     (Options \<times> node \<times> node list \<times> node option \<times> Referencer)) +
    (Options \<times> node \<times> node option \<times> node \<times> Referencer) +
    (Options \<times> bool \<times> bool \<times> node \<times> node \<times> Referencer) +
    (Options \<times> node \<times> node \<times> node \<times> node \<times> Referencer) \<Rightarrow> nat" where
  "visit_measure = 
     case_sum
       (case_sum
          (case_sum (\<lambda>(opts, n, s). 8 * size n + 2) (\<lambda>(opts, ns, s). lsize ns))
          (case_sum (\<lambda>(opts, p, b, cb, s). case p of None \<Rightarrow> 0 | Some q \<Rightarrow> 8 * size (q::node) + 1)
             (case_sum (\<lambda>(opts, n, ps, i, s). lsize ps) (\<lambda>(opts, t, n, ds, i, s). lsize ds))))
       (case_sum
          (case_sum (\<lambda>(opts, t, n, decl, i, s). 8 * size decl + 2)
             (\<lambda>(opts, n, ps, b, s). 8 * (size_list size ps + size_option size b) + 9))
          (case_sum (\<lambda>(opts, n, sc, b, s). 8 * (size_option size sc + size b) + 9)
             (case_sum (\<lambda>(opts, m, c, k, v, s). 8 * (size k + size v) + 9)
                (\<lambda>(opts, n, l, r, b, s). 8 * (size l + size r + size b) + 9))))"

lemma andThen_cong [fundef_cong]:
  "r = r' \<Longrightarrow> (\<And>x. r' = Inr x \<Longrightarrow> f x = f' x) \<Longrightarrow> andThen r f = andThen r' f'"
  by (auto simp: andThen_def split: sum.splits)

text \<open>
  The walk. \<open>visit\<close> dispatches on the node type as esrecurse does: a node type with a
  handler in the Referencer runs the handler, every other node type has its children
  visited. \<open>visit_list\<close> visits nodes in order; an absent node is not visited.
  The helpers \<open>visitFunction\<close>, \<open>visitClass\<close>, \<open>visitProperty\<close> and \<open>visitForIn\<close> take
  the node and, after it, the fields of it that they read.
\<close>

function (sequential)
  visit :: "Options \<Rightarrow> node \<Rightarrow> Referencer \<Rightarrow> error + Referencer" and
  visit_list :: "Options \<Rightarrow> node list \<Rightarrow> Referencer \<Rightarrow> error + Referencer" and
  visitPattern ::
    "Options \<Rightarrow> node option \<Rightarrow> bool \<Rightarrow> (node \<Rightarrow> PatternInfo \<Rightarrow> Referencer \<Rightarrow> error + Referencer)
       \<Rightarrow> Referencer \<Rightarrow> error + Referencer" and
  visitParams :: "Options \<Rightarrow> node \<Rightarrow> node list \<Rightarrow> nat \<Rightarrow> Referencer \<Rightarrow> error + Referencer" and
  visitDeclarations ::
    "Options \<Rightarrow> nat \<Rightarrow> node \<Rightarrow> node list \<Rightarrow> nat \<Rightarrow> Referencer \<Rightarrow> error + Referencer" and
  visitVariableDeclaration ::
    "Options \<Rightarrow> nat \<Rightarrow> node \<Rightarrow> node \<Rightarrow> nat \<Rightarrow> Referencer \<Rightarrow> error + Referencer" and
  visitFunction ::
    "Options \<Rightarrow> node \<Rightarrow> node list \<Rightarrow> node option \<Rightarrow> Referencer \<Rightarrow> error + Referencer" and
  visitClass ::
    "Options \<Rightarrow> node \<Rightarrow> node option \<Rightarrow> node \<Rightarrow> Referencer \<Rightarrow> error + Referencer" and
  visitProperty ::
    "Options \<Rightarrow> bool \<Rightarrow> bool \<Rightarrow> node \<Rightarrow> node \<Rightarrow> Referencer \<Rightarrow> error + Referencer" and
  visitForIn ::
    "Options \<Rightarrow> node \<Rightarrow> node \<Rightarrow> node \<Rightarrow> node \<Rightarrow> Referencer \<Rightarrow> error + Referencer"
where
  "visit opts (Identifier nm) s =
     andThen (currentScope s) (\<lambda>c.
       Inr (referencing c (mkReference (Identifier nm) READ None None False False) s))"
| "visit opts (Program b) s =
     andThen (nestProgramScopes opts (Program b) s)
       (\<lambda>s4. andThen (visit_list opts (children (Program b)) s4)
          (\<lambda>s5. Inr (close (Program b) s5)))"
| "visit opts (FunctionDeclaration i ps b) s =
     visitFunction opts (FunctionDeclaration i ps b) ps b s"
| "visit opts (FunctionExpression i ps b) s =
     visitFunction opts (FunctionExpression i ps b) ps b s"
| "visit opts (ArrowFunctionExpression ps b) s =
     visitFunction opts (ArrowFunctionExpression ps b) ps b s"
| "visit opts (ClassDeclaration i sc b) s = visitClass opts (ClassDeclaration i sc b) sc b s"
| "visit opts (ClassExpression i sc b) s = visitClass opts (ClassExpression i sc b) sc b s"
| "visit opts (BlockStatement b) s =
     andThen
       (visit_list opts (children (BlockStatement b))
          (if es6 opts then nestBlockScope opts (BlockStatement b) s else s))
       (\<lambda>s2. Inr (close (BlockStatement b) s2))"
| "visit opts (VariableDeclaration k ds) s =
     andThen (currentScope s) (\<lambda>c.
       visitDeclarations opts (if k = ''var'' then variableScope (scopes s ! c) else c)
         (VariableDeclaration k ds) ds 0 s)"
| "visit opts (AssignmentExpression oper l r) s =
     andThen
       (if isPattern l
        then (if oper = ''=''
              then visitPattern opts (Some l) True
                     (assignmentCallback (AssignmentExpression oper l r) r False) s
              else andThen (currentScope s) (\<lambda>c.
                     Inr (referencing c (mkReference l RW (Some r) None False False) s)))
        else visit opts l s)
       (visit opts r)"
| "visit opts (CatchClause p b) s =
     andThen
       (case p of
          None \<Rightarrow> Inr (nestCatchScope opts (CatchClause p b) s)
        | Some param \<Rightarrow>
            visitPattern opts (Some param) True (catchCallback (CatchClause p b) param)
              (nestCatchScope opts (CatchClause p b) s))
       (\<lambda>s2. andThen (visit opts b s2) (\<lambda>s3. Inr (close (CatchClause p b) s3)))"
| "visit opts (UpdateExpression a) s =
     (if isPattern a
      then andThen (currentScope s) (\<lambda>c.
             Inr (referencing c (mkReference a RW None None False False) s))
      else visit_list opts (children (UpdateExpression a)) s)"
| "visit opts (MemberExpression c obj p) s =
     andThen (visit opts obj s) (\<lambda>s1. if c then visit opts p s1 else Inr s1)"
| "visit opts (Property c k v) s = visitProperty opts False c k v s"
| "visit opts (MethodDefinition c k v) s = visitProperty opts True c k v s"
| "visit opts (BreakStatement l) s = Inr s"
| "visit opts (ContinueStatement l) s = Inr s"
| "visit opts (LabeledStatement l b) s = visit opts b s"
| "visit opts (ForStatement i t u b) s =
     andThen
       (visit_list opts (children (ForStatement i t u b))
          (if isLexicalDeclaration i then nestForScope opts (ForStatement i t u b) s else s))
       (\<lambda>s2. Inr (close (ForStatement i t u b) s2))"
| "visit opts (ForInStatement l r b) s = visitForIn opts (ForInStatement l r b) l r b s"
| "visit opts (ForOfStatement l r b) s = visitForIn opts (ForOfStatement l r b) l r b s"
| "visit opts (CallExpression c as) s =
     andThen
       (if \<not> ignoreEval opts \<and> isEvalCallee c
        then andThen (currentScope s) (\<lambda>i. Inr (detectEval (variableScope (scopes s ! i)) s))
        else Inr s)
       (visit_list opts (children (CallExpression c as)))"
| "visit opts ThisExpression s =
     andThen (currentScope s) (\<lambda>c. Inr (detectThis (variableScope (scopes s ! c)) s))"
| "visit opts (WithStatement obj b) s =
     andThen (visit opts obj s)
       (\<lambda>s1. andThen (visit opts b (nestWithScope opts (WithStatement obj b) s1))
          (\<lambda>s2. Inr (close (WithStatement obj b) s2)))"
| "visit opts (SwitchStatement d cs) s =
     andThen (visit opts d s)
       (\<lambda>s1. andThen
          (visit_list opts cs
             (if es6 opts then nestSwitchScope opts (SwitchStatement d cs) s1 else s1))
          (\<lambda>s2. Inr (close (SwitchStatement d cs) s2)))"
| "visit opts (ImportDeclaration sp src) s =
     (if es6 opts \<and> isModule opts
      then visitImports (ImportDeclaration sp src) (importSpecifiers (ImportDeclaration sp src)) s
      else Inl (AssertionError
        ''ImportDeclaration should appear when the mode is ES6 and in the module context.''))"
| "visit opts (ExportNamedDeclaration d sp src) s =
     (if src \<noteq> None then Inr s
      else case d of
             Some decl \<Rightarrow> visit opts decl s
           | None \<Rightarrow> visit_list opts (children (ExportNamedDeclaration d sp src)) s)"
| "visit opts (ExportSpecifier e l) s = visit opts l s"
| "visit opts (MetaProperty m p) s = Inr s"
| "visit opts n s = visit_list opts (children n) s"
| "visit_list opts [] s = Inr s"
| "visit_list opts (n # ns) s = andThen (visit opts n s) (visit_list opts ns)"
| "visitPattern opts None processRightHandNodes callback s = Inr s"
| "visitPattern opts (Some p) processRightHandNodes callback s =
     andThen (eachLeaf callback (patternLeaves p) s)
       (\<lambda>s1. if processRightHandNodes then visit_list opts (rightHandNodes p) s1 else Inr s1)"
| "visitParams opts n [] i s = Inr s"
| "visitParams opts n (p # ps) i s =
     andThen (visitPattern opts (Some p) True (parameterCallback n i) s)
       (visitParams opts n ps (Suc i))"
| "visitDeclarations opts variableTargetScope n [] i s = Inr s"
| "visitDeclarations opts variableTargetScope n (decl # ds) i s =
     andThen (visitVariableDeclaration opts variableTargetScope n decl i s)
       (\<lambda>s1. andThen (visit_list opts (opt (declaratorInit decl)) s1)
          (visitDeclarations opts variableTargetScope n ds (Suc i)))"
| "visitVariableDeclaration opts variableTargetScope n decl index s =
     visitPattern opts (declaratorId decl) True
       (variableCallback variableTargetScope n (declarationKind n) decl index
          (declaratorInit decl)) s"
| "visitFunction opts n ps b s =
     andThen (nestFunctionScopes opts n s)
       (\<lambda>s3. andThen (visitParams opts n ps 0 s3)
          (\<lambda>s4. andThen
             (case b of
                None \<Rightarrow> Inr s4
              | Some bd \<Rightarrow>
                  if isBlockStatement bd then visit_list opts (children bd) s4
                  else visit opts bd s4)
             (\<lambda>s5. Inr (close n s5))))"
| "visitClass opts n sc b s =
     andThen (defineClassDeclaration n s)
       (\<lambda>s1. andThen (visit_list opts (opt sc) s1)
          (\<lambda>s2. andThen (nestNamedClassScope opts n s2)
             (\<lambda>s4. andThen (visit opts b s4) (\<lambda>s5. Inr (close n s5)))))"
| "visitProperty opts isMethodDefinition c k v s =
     andThen (if c then visit opts k s else Inr s)
       (\<lambda>s1.
          if isMethodDefinition
          then andThen (visit opts v (snd (pushInnerMethodDefinition True s1)))
                 (\<lambda>s3. Inr (popInnerMethodDefinition
                              (fst (pushInnerMethodDefinition True s1)) s3))
          else visit opts v s1)"
| "visitForIn opts n l r b s =
     andThen
       (case declarations l of
          Some ds \<Rightarrow>
            andThen
              (visit opts l (if isLexicalDeclaration (Some l) then nestForScope opts n s else s))
              (\<lambda>s2. case ds of
                 [] \<Rightarrow> Inl TypeError
               | d # ds' \<Rightarrow>
                   visitPattern opts (declaratorId d) False (forInDeclarationCallback r) s2)
        | None \<Rightarrow>
            visitPattern opts (Some l) True (assignmentCallback n r True)
              (if isLexicalDeclaration (Some l) then nestForScope opts n s else s))
       (\<lambda>s3. andThen (visit opts r s3)
          (\<lambda>s4. andThen (visit opts b s4) (\<lambda>s5. Inr (close n s5))))"
  by pat_completeness auto

termination
  apply (relation "measure visit_measure")
  apply (simp_all add: visit_measure_def size_list_lsize size_option_lsize lsize_rightHandNodes_less)
  subgoal for opts t n decl using lsize_declaratorInit [of decl] by linarith
  subgoal for decl by (auto split: option.splits dest: size_declaratorId)
  subgoal for opts n ps b s x xa x2 using lsize_block_children [of x2] by linarith
  subgoal by (auto split: option.splits dest: size_first_declarator)
  done

declare visitVariableDeclaration.simps [simp del] visitFunction.simps [simp del]
  visitClass.simps [simp del] visitProperty.simps [simp del] visitForIn.simps [simp del]

section \<open>Concrete inputs\<close>

text \<open>
  A script analysed for an edition without block scopes, and a Referencer on which no
  scope is open yet.
\<close>

definition scriptOptions :: Options where
  "scriptOptions =
     \<lparr>nodejsScope = False, es6 = False, isModule = False, strictModeSupported = False,
      impliedStrict = False, ignoreEval = False, strictAtCreation = (\<lambda>t b m u. False)\<rparr>"

definition noScopes :: Referencer where
  "noScopes = \<lparr>scopes = [], currentScopes = [], isInnerMethodDefinition = False\<rparr>"

text \<open>The same script analysed for an edition with block scopes.\<close>

definition es6Options :: Options where
  "es6Options = scriptOptions\<lparr>es6 := True\<rparr>"

lemma andThen_Inr [simp]: "andThen r f = Inr s' \<longleftrightarrow> (\<exists>s1. r = Inr s1 \<and> f s1 = Inr s')"
  by (cases r) (auto simp: andThen_def)

lemma andThen_Inl [simp]: "andThen (Inl e) f = Inl e"
  by (simp add: andThen_def)

lemma andThen_simp [simp]: "andThen (Inr x) f = f x"
  by (simp add: andThen_def)

lemma nth_update_field:
  "(\<And>x. f (g x) = f x) \<Longrightarrow> f (xs[i := g (xs ! i)] ! c) = f (xs ! c)"
  by (cases "i < length xs"; cases "c = i") (auto simp: list_update_beyond)


section \<open>What a walk leaves unchanged\<close>

text \<open>
  The construct a binding belongs to: the declaration for a variable or an import, the
  function, class or catch clause otherwise.
\<close>

definition defOwner :: "Definition \<Rightarrow> node" where
  "defOwner d = (case dparent d of Some p \<Rightarrow> p | None \<Rightarrow> dnode d)"

text \<open>
  \<open>grows N s s'\<close>: every scope of \<open>s\<close> is a scope of \<open>s'\<close> with the same type,
  block, upper scope, variable scope and strictness, whose bindings and references are
  those of \<open>s\<close> followed by new ones; the new bindings, and the blocks and bindings of
  the scopes that \<open>s'\<close> has in addition, belong to constructs of \<open>N\<close>.
\<close>

definition scopeKept :: "node set \<Rightarrow> Scope \<Rightarrow> Scope \<Rightarrow> bool" where
  "scopeKept N a b \<longleftrightarrow>
     stype b = stype a \<and> block b = block a \<and> upper b = upper a \<and>
     variableScope b = variableScope a \<and> isStrict b = isStrict a \<and>
     (\<exists>vs. variables b = variables a @ vs \<and> (\<forall>pd \<in> set vs. defOwner (snd pd) \<in> N)) \<and>
     prefix (references a) (references b)"

definition scopeNew :: "node set \<Rightarrow> Scope \<Rightarrow> bool" where
  "scopeNew N b \<longleftrightarrow> block b \<in> N \<and> (\<forall>pd \<in> set (variables b). defOwner (snd pd) \<in> N)"

definition grows :: "node set \<Rightarrow> Referencer \<Rightarrow> Referencer \<Rightarrow> bool" where
  "grows N s s' \<longleftrightarrow>
     length (scopes s) \<le> length (scopes s') \<and>
     (\<forall>i < length (scopes s). scopeKept N (scopes s ! i) (scopes s' ! i)) \<and>
     (\<forall>i. length (scopes s) \<le> i \<and> i < length (scopes s') \<longrightarrow> scopeNew N (scopes s' ! i))"

lemma scopeKept_refl [simp]: "scopeKept N a a"
  by (simp add: scopeKept_def)

lemma scopeKept_trans: "scopeKept N a b \<Longrightarrow> scopeKept N b c \<Longrightarrow> scopeKept N a c"
  unfolding scopeKept_def by (auto simp: prefix_order.order_trans) 

lemma scopeNew_kept: "scopeNew N a \<Longrightarrow> scopeKept N a b \<Longrightarrow> scopeNew N b"
  unfolding scopeKept_def scopeNew_def
  by (elim conjE exE) (simp, blast)

lemma scopeKept_mono: "scopeKept M a b \<Longrightarrow> M \<subseteq> N \<Longrightarrow> scopeKept N a b"
  unfolding scopeKept_def by (auto; blast)

lemma scopeNew_mono: "scopeNew M a \<Longrightarrow> M \<subseteq> N \<Longrightarrow> scopeNew N a"
  unfolding scopeNew_def by auto

lemma grows_refl [simp]: "grows N s s"
  by (auto simp: grows_def)

lemma grows_trans: "grows N s s1 \<Longrightarrow> grows N s1 s2 \<Longrightarrow> grows N s s2"
  unfolding grows_def
  apply (intro conjI allI impI)
    apply simp
   apply (meson scopeKept_trans less_le_trans)
  by (metis scopeNew_kept not_le_imp_less)

lemma grows_mono: "grows M s s' \<Longrightarrow> M \<subseteq> N \<Longrightarrow> grows N s s'"
  unfolding grows_def by (meson scopeKept_mono scopeNew_mono)



lemma length_updScope [simp]: "length (scopes (updScope i f s)) = length (scopes s)"
  by (simp add: updScope_def)

lemma currentScopes_updScope [simp]: "currentScopes (updScope i f s) = currentScopes s"
  by (simp add: updScope_def)

lemma nth_update_self:
  "j < length xs \<Longrightarrow> xs[i := f (xs ! i)] ! j = (if i = j then f (xs ! j) else xs ! j)"
  by auto

lemma grows_updScope:
  "(\<And>a. scopeKept N a (f a)) \<Longrightarrow> grows N s (updScope i f s)"
  unfolding grows_def updScope_def
  by (auto simp: nth_update_self)

lemma grows_scope_define: "defOwner d \<in> N \<Longrightarrow> grows N s (scope_define i p d s)"
  unfolding scope_define_def by (rule grows_updScope) (simp add: scopeKept_def)

lemma grows_referencing [simp]: "grows N s (referencing i r s)"
  unfolding referencing_def by (rule grows_updScope) (simp add: scopeKept_def)

lemma grows_detectEval [simp]: "grows N s (detectEval i s)"
  unfolding detectEval_def by (rule grows_updScope) (simp add: scopeKept_def)

lemma grows_detectThis [simp]: "grows N s (detectThis i s)"
  unfolding detectThis_def by (rule grows_updScope) (simp add: scopeKept_def)

lemma grows_currentScopes [simp]: "grows N s (s\<lparr>currentScopes := cs\<rparr>)"
  by (auto simp: grows_def)

lemma grows_isInner [simp]: "grows N s (s\<lparr>isInnerMethodDefinition := b\<rparr>)"
  by (auto simp: grows_def)

lemma grows_closeScope [simp]: "grows N s (closeScope s)"
proof -
  have "\<And>u r. grows N s (updScope u (\<lambda>usc. usc\<lparr>through := through usc @ r\<rparr>) s)"
    by (rule grows_updScope) (simp add: scopeKept_def)
  then have "\<And>u r cs. grows N s (updScope u (\<lambda>usc. usc\<lparr>through := through usc @ r\<rparr>) s\<lparr>currentScopes := cs\<rparr>)"
    by (auto simp: grows_def)
  then show ?thesis
    by (auto simp: closeScope_def Let_def split: list.splits)
qed

lemma grows_close [simp]: "grows N s (close n s)"
proof (induction n s rule: close.induct)
  case (1 n s)
  show ?case
  proof (cases "currentScopes s")
    case Nil
    then show ?thesis by (simp add: close.simps)
  next
    case (Cons c cs)
    show ?thesis
    proof (cases "n = block (scopes s ! c)")
      case True
      with Cons 1 have "grows N (closeScope s) (close n (closeScope s))" by simp
      then have "grows N s (close n (closeScope s))"
        by (rule grows_trans [OF grows_closeScope])
      with True Cons show ?thesis
        by (subst close.simps) simp
    next
      case False
      with Cons show ?thesis by (subst close.simps) auto
    qed
  qed
qed

lemma grows_nest:
  "b \<in> N \<Longrightarrow> \<forall>pd \<in> set vs. defOwner (snd pd) \<in> N \<Longrightarrow> grows N s (nest opts t b m vs s)"
  by (auto simp: grows_def nest_def Let_def nth_append scopeNew_def less_Suc_eq)

lemma length_nest [simp]: "length (scopes (nest opts t b m vs s)) = Suc (length (scopes s))"
  by (simp add: nest_def Let_def)

lemma currentScope_nest [simp]: "currentScope (nest opts t b m vs s) = Inr (length (scopes s))"
  by (simp add: currentScope_def nest_def Let_def)

lemma grows_setStrict_new:
  "grows N s s1 \<Longrightarrow> length (scopes s) \<le> c \<Longrightarrow> grows N s (setStrict c b s1)"
  unfolding grows_def setStrict_def updScope_def
  by (auto simp: nth_update_self scopeNew_def)

lemma grows_length: "grows N s s' \<Longrightarrow> length (scopes s) \<le> length (scopes s')"
  by (simp add: grows_def)

lemma grows_referencingDefaultValue:
  "referencingDefaultValue p as g ini s = Inr s' \<Longrightarrow> grows N s s'"
proof (induction as arbitrary: s)
  case Nil
  then show ?case by simp
next
  case (Cons a as)
  from Cons.prems obtain c where
    "referencingDefaultValue p as g ini
       (referencing c (mkReference p WRITE (assignmentRight a) g (Some p \<noteq> assignmentLeft a) ini) s)
     = Inr s'"
    by auto
  from Cons.IH [OF this] show ?case
    by (rule grows_trans [OF grows_referencing])
qed

lemma grows_eachLeaf:
  "(\<And>p i t t'. cb p i t = Inr t' \<Longrightarrow> grows N t t') \<Longrightarrow> eachLeaf cb ls s = Inr s' \<Longrightarrow> grows N s s'"
proof (induction ls arbitrary: s)
  case Nil
  then show ?case by simp
next
  case (Cons l ls)
  obtain p i where l: "l = (p, i)" by (cases l)
  from Cons.prems(2) l obtain s1 where s1: "cb p i s = Inr s1" "eachLeaf cb ls s1 = Inr s'"
    by auto
  from Cons.prems(1) [OF s1(1)] Cons.IH [OF Cons.prems(1) s1(2)] show ?case
    by (rule grows_trans)
qed

lemma defOwner_simps [simp]:
  "defOwner (mkDefinition t nm n None i k) = n"
  "defOwner (mkDefinition t nm n (Some p) i k) = p"
  "defOwner (ParameterDefinition nm n j r) = n"
  by (simp_all add: defOwner_def mkDefinition_def ParameterDefinition_def)

lemma grows_parameterCallback:
  assumes "parameterCallback n i p info s = Inr s'" and "n \<in> N"
  shows "grows N s s'"
proof -
  from assms(1) obtain c where
    "referencingDefaultValue p (assignments info) None True
       (scope_define c p (ParameterDefinition p n i (rest info)) s) = Inr s'"
    by (auto simp: parameterCallback_def)
  then show ?thesis
    by (intro grows_trans [OF grows_scope_define grows_referencingDefaultValue])
       (simp_all add: assms(2))
qed

lemma grows_variableCallback:
  assumes "variableCallback t n k decl i ini p info s = Inr s'" and "n \<in> N"
  shows "grows N s s'"
proof -
  from assms(1) obtain s1 where
    s1: "referencingDefaultValue p (assignments info) None True
       (scope_define t p (mkDefinition Variable p decl (Some n) (Some i) k) s) = Inr s1"
    and s': "(case ini of None \<Rightarrow> Inr s1
              | Some e \<Rightarrow> andThen (currentScope s1) (\<lambda>c.
                  Inr (referencing c (mkReference p WRITE (Some e) None (\<not> topLevel info) True) s1)))
             = Inr s'"
    by (auto simp: variableCallback_def)
  have a: "grows N s s1"
    by (rule grows_trans [OF grows_scope_define grows_referencingDefaultValue [OF s1]])
       (simp add: assms(2))
  have b: "grows N s1 s'"
    using s' by (cases ini) auto
  from a b show ?thesis by (rule grows_trans)
qed

lemma grows_assignmentCallback:
  assumes "assignmentCallback n r ap p info s = Inr s'"
  shows "grows N s s'"
proof -
  from assms obtain g s1 c1 where
    s1: "referencingDefaultValue p (assignments info) g False s = Inr s1"
    and s': "s' = referencing c1 (mkReference p WRITE (Some r) g (ap \<or> \<not> topLevel info) False) s1"
    by (auto simp: assignmentCallback_def Let_def)
  show ?thesis
    unfolding s' by (rule grows_trans [OF grows_referencingDefaultValue [OF s1] grows_referencing])
qed

lemma grows_forInDeclarationCallback:
  "forInDeclarationCallback r p info s = Inr s' \<Longrightarrow> grows N s s'"
  unfolding forInDeclarationCallback_def by auto

lemma grows_catchCallback:
  assumes "catchCallback n param p info s = Inr s'" and "n \<in> N"
  shows "grows N s s'"
proof -
  from assms(1) obtain c where
    "referencingDefaultValue p (assignments info) None True
       (scope_define c p (mkDefinition CatchClauseT param n None None None) s) = Inr s'"
    by (auto simp: catchCallback_def)
  then show ?thesis
    by (intro grows_trans [OF grows_scope_define grows_referencingDefaultValue])
       (simp_all add: assms(2))
qed

lemma grows_importCallback:
  "importCallback decl spec p info s = Inr s' \<Longrightarrow> decl \<in> N \<Longrightarrow> grows N s s'"
  unfolding importCallback_def
  by (auto intro!: grows_scope_define)

lemma grows_visitImports:
  "visitImports decl ls s = Inr s' \<Longrightarrow> decl \<in> N \<Longrightarrow> grows N s s'"
proof (induction ls arbitrary: s)
  case Nil
  then show ?case by simp
next
  case (Cons l ls)
  obtain a b where l: "l = (a, b)" by (cases l)
  from Cons.prems l obtain s1 where
    s1: "eachLeaf (importCallback decl b) (patternLeaves a) s = Inr s1" "visitImports decl ls s1 = Inr s'"
    by auto
  have "grows N s s1"
    by (rule grows_eachLeaf [OF _ s1(1)]) (rule grows_importCallback [OF _ Cons.prems(2)])
  then show ?case using Cons.IH [OF s1(2) Cons.prems(2)] by (rule grows_trans)
qed


text \<open>The nodes of a list of trees.\<close>

definition nodesOf :: "node list \<Rightarrow> node set" where
  "nodesOf ns = (\<Union>n \<in> set ns. set (subnodes n))"

lemma nodesOf_simps [simp]:
  "nodesOf [] = {}"
  "nodesOf (x # xs) = set (subnodes x) \<union> nodesOf xs"
  "nodesOf (xs @ ys) = nodesOf xs \<union> nodesOf ys"
  "nodesOf (opt None) = {}"
  "nodesOf (opt (Some n)) = set (subnodes n)"
  by (auto simp: nodesOf_def)

lemma set_subnodes: "set (subnodes n) = insert n (nodesOf (children n))"
  by (subst subnodes.simps) (auto simp: nodesOf_def)

lemma self_subnodes [simp]: "n \<in> set (subnodes n)"
  by (simp add: set_subnodes)

lemma nodesOf_concat: "nodesOf (concat xss) = (\<Union>xs \<in> set xss. nodesOf xs)"
  by (auto simp: nodesOf_def)

lemma nodesOf_rightHandNodes: "nodesOf (rightHandNodes p) \<subseteq> set (subnodes p)"
proof (induction p rule: rightHandNodes.induct)
  case (1 ps)
  then show ?case
    by (auto simp: nodesOf_concat set_subnodes [of "ObjectPattern ps"]) (auto simp: nodesOf_def)
next
  case (2 es)
  then show ?case
    by (auto simp: nodesOf_concat set_subnodes [of "ArrayPattern es"]) (auto simp: nodesOf_def)
next
  case (3 c k v)
  then show ?case by (auto simp: set_subnodes [of "Property c k v"])
next
  case (4 l r)
  then show ?case by (auto simp: set_subnodes [of "AssignmentPattern l r"])
next
  case (5 a)
  then show ?case by (auto simp: set_subnodes [of "RestElement a"])
qed simp_all


lemma grows_pushes:
  "grows N s0 s \<Longrightarrow> grows N s0 (referencing i r s)"
  "grows N s0 s \<Longrightarrow> grows N s0 (detectEval i s)"
  "grows N s0 s \<Longrightarrow> grows N s0 (detectThis i s)"
  "grows N s0 s \<Longrightarrow> grows N s0 (close n s)"
  "grows N s0 s \<Longrightarrow> grows N s0 (s\<lparr>isInnerMethodDefinition := b\<rparr>)"
  by (erule grows_trans, simp)+

lemma grows_push_define:
  "grows N s0 s \<Longrightarrow> defOwner d \<in> N \<Longrightarrow> grows N s0 (scope_define i p d s)"
  by (erule grows_trans) (rule grows_scope_define)

lemma grows_push_nest:
  "grows N s0 s \<Longrightarrow> b \<in> N \<Longrightarrow> \<forall>pd \<in> set vs. defOwner (snd pd) \<in> N \<Longrightarrow>
   grows N s0 (nest opts t b m vs s)"
  by (erule grows_trans) (rule grows_nest)

lemma grows_push_nest0:
  "grows N s0 s \<Longrightarrow> b \<in> N \<Longrightarrow> grows N s0 (nest opts t b m [] s)"
  by (rule grows_push_nest) auto

lemma grows_push_eachLeaf:
  "grows N s0 s \<Longrightarrow> eachLeaf cb ls s = Inr s' \<Longrightarrow>
   (\<And>p i t t'. cb p i t = Inr t' \<Longrightarrow> grows N t t') \<Longrightarrow> grows N s0 s'"
  by (erule grows_trans) (rule grows_eachLeaf)


lemmas nest_defs = nestGlobalScope_def nestModuleScope_def nestFunctionScope_def nestBlockScope_def
  nestSwitchScope_def nestCatchScope_def nestWithScope_def nestClassScope_def nestForScope_def
  nestFunctionExpressionNameScope_def

lemma length_setStrict [simp]: "length (scopes (setStrict c b s)) = length (scopes s)"
  by (simp add: setStrict_def)

lemma currentScope_setStrict [simp]: "currentScope (setStrict c b s) = currentScope s"
  by (simp add: setStrict_def currentScope_def)

lemma grows_nestProgramScopes:
  assumes "nestProgramScopes opts n s = Inr s'" and "grows N s0 s" and "n \<in> N"
  shows "grows N s0 s'"
proof -
  have len: "length (scopes s0) \<le> length (scopes s)"
    using assms(2) by (rule grows_length)
  define s1 where "s1 = nestGlobalScope opts n s"
  have g1: "grows N s0 s1"
    unfolding s1_def nestGlobalScope_def using assms(2,3) by (intro grows_push_nest) auto
  define s2 where "s2 = (if nodejsScope opts
      then nestFunctionScope opts n False (setStrict (length (scopes s)) False s1) else s1)"
  have g2: "grows N s0 s2"
    unfolding s2_def nestFunctionScope_def using g1 len assms(3)
    by (auto intro!: grows_push_nest grows_setStrict_new)
  define s3 where "s3 = (if es6 opts \<and> isModule opts then nestModuleScope opts n s2 else s2)"
  have g3: "grows N s0 s3"
    unfolding s3_def nestModuleScope_def using g2 assms(3) by (auto intro!: grows_push_nest)
  have cur: "\<exists>c. currentScope s3 = Inr c \<and> length (scopes s0) \<le> c"
    using len grows_length [OF g2]
    by (auto simp: s3_def s2_def s1_def nest_defs)
  have "s' = s3 \<or> (\<exists>c. currentScope s3 = Inr c \<and> s' = setStrict c True s3)"
    using assms(1)
    by (auto simp: nestProgramScopes_def Let_def s3_def s2_def s1_def nest_defs split: if_splits)
  with g3 cur show ?thesis
    by (auto intro: grows_setStrict_new)
qed

lemma grows_nestFunctionScopes:
  assumes "nestFunctionScopes opts n s = Inr s'" and "grows N s0 s" and "n \<in> N"
  shows "grows N s0 s'"
proof -
  define nm where
    "nm = (\<lambda>s1. if isFunctionExpression n \<and> nodeId n \<noteq> None
                then nestFunctionExpressionNameScope opts n s1 else s1)"
  from assms(1) obtain s1 where
    s1: "(if isFunctionDeclaration n
          then (case nodeId n of None \<Rightarrow> Inr s
                | Some i \<Rightarrow> andThen (currentScope s) (\<lambda>c.
                    Inr (scope_define c i (mkDefinition FunctionName i n None None None) s)))
          else Inr s) = Inr s1"
    and s': "s' = nestFunctionScope opts n (isInnerMethodDefinition (nm s1)) (nm s1)"
    unfolding nestFunctionScopes_def nm_def Let_def andThen_Inr by auto
  have g1: "grows N s0 s1"
    using s1 assms(2,3) by (auto split: if_splits option.splits intro!: grows_push_define)
  have g2: "grows N s0 (nm s1)"
    unfolding nm_def using g1 assms(3)
    by (cases "nodeId n") (auto simp: nestFunctionExpressionNameScope_def intro!: grows_push_nest)
  show ?thesis
    unfolding s' nestFunctionScope_def using g2 assms(3) by (intro grows_push_nest) auto
qed

lemma grows_defineClassDeclaration:
  "defineClassDeclaration n s = Inr s' \<Longrightarrow> grows N s0 s \<Longrightarrow> n \<in> N \<Longrightarrow> grows N s0 s'"
  by (auto simp: defineClassDeclaration_def split: if_splits option.splits intro!: grows_push_define)

lemma grows_nestNamedClassScope:
  "nestNamedClassScope opts n s = Inr s' \<Longrightarrow> grows N s0 s \<Longrightarrow> n \<in> N \<Longrightarrow> grows N s0 s'"
  by (auto simp: nestNamedClassScope_def Let_def nestClassScope_def split: option.splits
      intro!: grows_push_define grows_push_nest)

lemmas visit_induct = visit_visit_list_visitPattern_visitParams_visitDeclarations_visitVariableDeclaration_visitFunction_visitClass_visitProperty_visitForIn.induct

text \<open>
  \<open>keeps N s0 r\<close>: when the result \<open>r\<close> is a state, it has grown from \<open>s0\<close>.
  \<open>callbackGrows N cb\<close>: the callback of a pattern visit only lets the state grow.
\<close>

definition keeps :: "node set \<Rightarrow> Referencer \<Rightarrow> error + Referencer \<Rightarrow> bool" where
  "keeps N s0 r \<longleftrightarrow> (\<forall>s'. r = Inr s' \<longrightarrow> grows N s0 s')"

definition callbackGrows ::
  "node set \<Rightarrow> (node \<Rightarrow> PatternInfo \<Rightarrow> Referencer \<Rightarrow> error + Referencer) \<Rightarrow> bool" where
  "callbackGrows N cb \<longleftrightarrow> (\<forall>p i t t'. cb p i t = Inr t' \<longrightarrow> grows N t t')"

lemma keeps_Inr [simp]: "keeps N s0 (Inr s) \<longleftrightarrow> grows N s0 s"
  by (simp add: keeps_def)

lemma keeps_Inl [simp]: "keeps N s0 (Inl e)"
  by (simp add: keeps_def)

lemma keeps_andThen:
  "keeps N s0 r \<Longrightarrow> (\<And>s1. r = Inr s1 \<Longrightarrow> grows N s0 s1 \<Longrightarrow> keeps N s0 (f s1)) \<Longrightarrow>
   keeps N s0 (andThen r f)"
  by (auto simp: keeps_def)

lemma keeps_andThen_currentScope:
  "(\<And>c. currentScope s = Inr c \<Longrightarrow> keeps N s0 (f c)) \<Longrightarrow> keeps N s0 (andThen (currentScope s) f)"
  by (auto simp: keeps_def)

lemma keeps_if:
  "(c \<Longrightarrow> keeps N s0 a) \<Longrightarrow> (\<not> c \<Longrightarrow> keeps N s0 b) \<Longrightarrow> keeps N s0 (if c then a else b)"
  by simp

lemma keeps_case_option:
  "(x = None \<Longrightarrow> keeps N s0 a) \<Longrightarrow> (\<And>y. x = Some y \<Longrightarrow> keeps N s0 (b y)) \<Longrightarrow>
   keeps N s0 (case x of None \<Rightarrow> a | Some y \<Rightarrow> b y)"
  by (cases x) auto

lemma keeps_case_list:
  "(x = [] \<Longrightarrow> keeps N s0 a) \<Longrightarrow> (\<And>y ys. x = y # ys \<Longrightarrow> keeps N s0 (b y ys)) \<Longrightarrow>
   keeps N s0 (case x of [] \<Rightarrow> a | y # ys \<Rightarrow> b y ys)"
  by (cases x) auto

lemma keeps_eachLeaf:
  "grows N s0 s \<Longrightarrow> callbackGrows N cb \<Longrightarrow> keeps N s0 (eachLeaf cb ls s)"
  unfolding keeps_def callbackGrows_def by (blast intro: grows_push_eachLeaf)

lemma keeps_nestProgramScopes:
  "grows N s0 s \<Longrightarrow> n \<in> N \<Longrightarrow> keeps N s0 (nestProgramScopes opts n s)"
  unfolding keeps_def by (blast intro: grows_nestProgramScopes)

lemma keeps_nestFunctionScopes:
  "grows N s0 s \<Longrightarrow> n \<in> N \<Longrightarrow> keeps N s0 (nestFunctionScopes opts n s)"
  unfolding keeps_def by (blast intro: grows_nestFunctionScopes)

lemma keeps_defineClassDeclaration:
  "grows N s0 s \<Longrightarrow> n \<in> N \<Longrightarrow> keeps N s0 (defineClassDeclaration n s)"
  unfolding keeps_def by (blast intro: grows_defineClassDeclaration)

lemma keeps_nestNamedClassScope:
  "grows N s0 s \<Longrightarrow> n \<in> N \<Longrightarrow> keeps N s0 (nestNamedClassScope opts n s)"
  unfolding keeps_def by (blast intro: grows_nestNamedClassScope)

lemma keeps_visitImports:
  "grows N s0 s \<Longrightarrow> decl \<in> N \<Longrightarrow> keeps N s0 (visitImports decl ls s)"
  unfolding keeps_def by (blast intro: grows_trans grows_visitImports)

lemma callbackGrows_simps [simp]:
  "n \<in> N \<Longrightarrow> callbackGrows N (parameterCallback n i)"
  "n \<in> N \<Longrightarrow> callbackGrows N (variableCallback t n k decl i ini)"
  "callbackGrows N (assignmentCallback n r ap)"
  "callbackGrows N (forInDeclarationCallback r)"
  "n \<in> N \<Longrightarrow> callbackGrows N (catchCallback n param)"
  unfolding callbackGrows_def
  by (blast intro: grows_parameterCallback grows_variableCallback grows_assignmentCallback
      grows_forInDeclarationCallback grows_catchCallback)+

lemmas keeps_intros = keeps_andThen_currentScope keeps_andThen keeps_if keeps_case_option
  keeps_case_list keeps_eachLeaf keeps_nestProgramScopes keeps_nestFunctionScopes
  keeps_defineClassDeclaration keeps_nestNamedClassScope keeps_visitImports

lemmas visit_simps = visit.simps visit_list.simps visitPattern.simps visitParams.simps
  visitDeclarations.simps visitVariableDeclaration.simps visitFunction.simps visitClass.simps
  visitProperty.simps visitForIn.simps

lemmas grows_push_simps = grows_pushes grows_push_define grows_push_nest0

lemma nodesOf_rhs_subset: "set (subnodes p) \<subseteq> N \<Longrightarrow> nodesOf (rightHandNodes p) \<subseteq> N"
  using nodesOf_rightHandNodes by blast

lemma nodesOf_declarator [simp]:
  "nodesOf (children d) \<subseteq> N \<Longrightarrow> nodesOf (opt (declaratorInit d)) \<subseteq> N"
  "nodesOf (children d) \<subseteq> N \<Longrightarrow> nodesOf (opt (declaratorId d)) \<subseteq> N"
  by (cases d; auto)+

lemma nodesOf_first_declarator [simp]:
  "declarations l = Some (d # ds) \<Longrightarrow> nodesOf (children l) \<subseteq> N \<Longrightarrow>
   nodesOf (opt (declaratorId d)) \<subseteq> N"
  by (cases l) (auto simp: set_subnodes [of d])

lemma grows_visit_all:
  "\<forall>N s0. grows N s0 s \<longrightarrow> set (subnodes n) \<subseteq> N \<longrightarrow> keeps N s0 (visit opts n s)"
  "\<forall>N s0. grows N s0 s \<longrightarrow> nodesOf ns \<subseteq> N \<longrightarrow> keeps N s0 (visit_list opts ns s)"
  "\<forall>N s0. grows N s0 s \<longrightarrow> nodesOf (opt po) \<subseteq> N \<longrightarrow> callbackGrows N cb \<longrightarrow>
      keeps N s0 (visitPattern opts po prh cb s)"
  "\<forall>N s0. grows N s0 s \<longrightarrow> fn \<in> N \<longrightarrow> nodesOf ps \<subseteq> N \<longrightarrow>
      keeps N s0 (visitParams opts fn ps i s)"
  "\<forall>N s0. grows N s0 s \<longrightarrow> vd \<in> N \<longrightarrow> nodesOf ds \<subseteq> N \<longrightarrow>
      keeps N s0 (visitDeclarations opts t vd ds j s)"
  "\<forall>N s0. grows N s0 s \<longrightarrow> vd' \<in> N \<longrightarrow> set (subnodes decl) \<subseteq> N \<longrightarrow>
      keeps N s0 (visitVariableDeclaration opts t' vd' decl j' s)"
  "\<forall>N s0. grows N s0 s \<longrightarrow> f \<in> N \<longrightarrow> nodesOf fps \<subseteq> N \<longrightarrow> nodesOf (opt fb) \<subseteq> N \<longrightarrow>
      keeps N s0 (visitFunction opts f fps fb s)"
  "\<forall>N s0. grows N s0 s \<longrightarrow> cl \<in> N \<longrightarrow> nodesOf (opt sc) \<subseteq> N \<longrightarrow> set (subnodes cb') \<subseteq> N \<longrightarrow>
      keeps N s0 (visitClass opts cl sc cb' s)"
  "\<forall>N s0. grows N s0 s \<longrightarrow> set (subnodes k) \<subseteq> N \<longrightarrow> set (subnodes v) \<subseteq> N \<longrightarrow>
      keeps N s0 (visitProperty opts im c k v s)"
  "\<forall>N s0. grows N s0 s \<longrightarrow> fi \<in> N \<longrightarrow> set (subnodes l) \<subseteq> N \<longrightarrow> set (subnodes r) \<subseteq> N \<longrightarrow>
      set (subnodes b) \<subseteq> N \<longrightarrow> keeps N s0 (visitForIn opts fi l r b s)"
  apply (induction opts n s and opts ns s and opts po prh cb s and opts fn ps i s and opts t vd ds j s
    and opts t' vd' decl j' s and opts f fps fb s and opts cl sc cb' s and opts im c k v s
    and opts fi l r b s rule: visit_induct)
  subgoal by (intro allI impI, subst visit_simps, (intro keeps_intros)?;
        simp add: grows_push_simps set_subnodes nest_defs nodesOf_rhs_subset
          pushInnerMethodDefinition_def popInnerMethodDefinition_def)
  subgoal by (intro allI impI, subst visit_simps, (intro keeps_intros)?;
        simp add: grows_push_simps set_subnodes nest_defs nodesOf_rhs_subset
          pushInnerMethodDefinition_def popInnerMethodDefinition_def)
  subgoal by (intro allI impI, subst visit_simps, (intro keeps_intros)?;
        simp add: grows_push_simps set_subnodes nest_defs nodesOf_rhs_subset
          pushInnerMethodDefinition_def popInnerMethodDefinition_def)
  subgoal by (intro allI impI, subst visit_simps, (intro keeps_intros)?;
        simp add: grows_push_simps set_subnodes nest_defs nodesOf_rhs_subset
          pushInnerMethodDefinition_def popInnerMethodDefinition_def)
  subgoal by (intro allI impI, subst visit_simps, (intro keeps_intros)?;
        simp add: grows_push_simps set_subnodes nest_defs nodesOf_rhs_subset
          pushInnerMethodDefinition_def popInnerMethodDefinition_def)
  subgoal by (intro allI impI, subst visit_simps, (intro keeps_intros)?;
        simp add: grows_push_simps set_subnodes nest_defs nodesOf_rhs_subset
          pushInnerMethodDefinition_def popInnerMethodDefinition_def)
  subgoal by (intro allI impI, subst visit_simps, (intro keeps_intros)?;
        simp add: grows_push_simps set_subnodes nest_defs nodesOf_rhs_subset
          pushInnerMethodDefinition_def popInnerMethodDefinition_def)
  subgoal by (intro allI impI, subst visit_simps, (intro keeps_intros)?;
        simp add: grows_push_simps set_subnodes nest_defs nodesOf_rhs_subset
          pushInnerMethodDefinition_def popInnerMethodDefinition_def)
  subgoal by (intro allI impI, subst visit_simps, (intro keeps_intros)?;
        simp add: grows_push_simps set_subnodes nest_defs nodesOf_rhs_subset
          pushInnerMethodDefinition_def popInnerMethodDefinition_def)
  subgoal by (intro allI impI, subst visit_simps, (intro keeps_intros)?;
        simp add: grows_push_simps set_subnodes nest_defs nodesOf_rhs_subset
          pushInnerMethodDefinition_def popInnerMethodDefinition_def)
  subgoal by (intro allI impI, subst visit_simps, (intro keeps_intros)?;
        simp add: grows_push_simps set_subnodes nest_defs nodesOf_rhs_subset
          pushInnerMethodDefinition_def popInnerMethodDefinition_def)
  subgoal by (intro allI impI, subst visit_simps, (intro keeps_intros)?;
        simp add: grows_push_simps set_subnodes nest_defs nodesOf_rhs_subset
          pushInnerMethodDefinition_def popInnerMethodDefinition_def)
  subgoal by (intro allI impI, subst visit_simps, (intro keeps_intros)?;
        simp add: grows_push_simps set_subnodes nest_defs nodesOf_rhs_subset
          pushInnerMethodDefinition_def popInnerMethodDefinition_def)
  subgoal by (intro allI impI, subst visit_simps, (intro keeps_intros)?;
        simp add: grows_push_simps set_subnodes nest_defs nodesOf_rhs_subset
          pushInnerMethodDefinition_def popInnerMethodDefinition_def)
  subgoal by (intro allI impI, subst visit_simps, (intro keeps_intros)?;
        simp add: grows_push_simps set_subnodes nest_defs nodesOf_rhs_subset
          pushInnerMethodDefinition_def popInnerMethodDefinition_def)
  subgoal by (intro allI impI, subst visit_simps, (intro keeps_intros)?;
        simp add: grows_push_simps set_subnodes nest_defs nodesOf_rhs_subset
          pushInnerMethodDefinition_def popInnerMethodDefinition_def)
  subgoal by (intro allI impI, subst visit_simps, (intro keeps_intros)?;
        simp add: grows_push_simps set_subnodes nest_defs nodesOf_rhs_subset
          pushInnerMethodDefinition_def popInnerMethodDefinition_def)
  subgoal by (intro allI impI, subst visit_simps, (intro keeps_intros)?;
        simp add: grows_push_simps set_subnodes nest_defs nodesOf_rhs_subset
          pushInnerMethodDefinition_def popInnerMethodDefinition_def)
  subgoal by (intro allI impI, subst visit_simps, (intro keeps_intros)?;
        simp add: grows_push_simps set_subnodes nest_defs nodesOf_rhs_subset
          pushInnerMethodDefinition_def popInnerMethodDefinition_def)
  subgoal by (intro allI impI, subst visit_simps, (intro keeps_intros)?;
        simp add: grows_push_simps set_subnodes nest_defs nodesOf_rhs_subset
          pushInnerMethodDefinition_def popInnerMethodDefinition_def)
  subgoal by (intro allI impI, subst visit_simps, (intro keeps_intros)?;
        simp add: grows_push_simps set_subnodes nest_defs nodesOf_rhs_subset
          pushInnerMethodDefinition_def popInnerMethodDefinition_def)
  subgoal by (intro allI impI, subst visit_simps, (intro keeps_intros)?;
        simp add: grows_push_simps set_subnodes nest_defs nodesOf_rhs_subset
          pushInnerMethodDefinition_def popInnerMethodDefinition_def)
  subgoal by (intro allI impI, subst visit_simps, (intro keeps_intros)?;
        simp add: grows_push_simps set_subnodes nest_defs nodesOf_rhs_subset
          pushInnerMethodDefinition_def popInnerMethodDefinition_def)
  subgoal by (intro allI impI, subst visit_simps, (intro keeps_intros)?;
        simp add: grows_push_simps set_subnodes nest_defs nodesOf_rhs_subset
          pushInnerMethodDefinition_def popInnerMethodDefinition_def)
  subgoal by (intro allI impI, subst visit_simps, (intro keeps_intros)?;
        simp add: grows_push_simps set_subnodes nest_defs nodesOf_rhs_subset
          pushInnerMethodDefinition_def popInnerMethodDefinition_def)
  subgoal by (intro allI impI, subst visit_simps, (intro keeps_intros)?;
        simp add: grows_push_simps set_subnodes nest_defs nodesOf_rhs_subset
          pushInnerMethodDefinition_def popInnerMethodDefinition_def)
  subgoal by (intro allI impI, subst visit_simps, (intro keeps_intros)?;
        simp add: grows_push_simps set_subnodes nest_defs nodesOf_rhs_subset
          pushInnerMethodDefinition_def popInnerMethodDefinition_def)
  subgoal by (intro allI impI, subst visit_simps, (intro keeps_intros)?;
        simp add: grows_push_simps set_subnodes nest_defs nodesOf_rhs_subset
          pushInnerMethodDefinition_def popInnerMethodDefinition_def)
  subgoal by (intro allI impI, subst visit_simps, (intro keeps_intros)?;
        simp add: grows_push_simps set_subnodes nest_defs nodesOf_rhs_subset
          pushInnerMethodDefinition_def popInnerMethodDefinition_def)
  subgoal by (intro allI impI, subst visit_simps, (intro keeps_intros)?;
        simp add: grows_push_simps set_subnodes nest_defs nodesOf_rhs_subset
          pushInnerMethodDefinition_def popInnerMethodDefinition_def)
  subgoal by (intro allI impI, subst visit_simps, (intro keeps_intros)?;
        simp add: grows_push_simps set_subnodes nest_defs nodesOf_rhs_subset
          pushInnerMethodDefinition_def popInnerMethodDefinition_def)
  subgoal by (intro allI impI, subst visit_simps, (intro keeps_intros)?;
        simp add: grows_push_simps set_subnodes nest_defs nodesOf_rhs_subset
          pushInnerMethodDefinition_def popInnerMethodDefinition_def)
  subgoal by (intro allI impI, subst visit_simps, (intro keeps_intros)?;
        simp add: grows_push_simps set_subnodes nest_defs nodesOf_rhs_subset
          pushInnerMethodDefinition_def popInnerMethodDefinition_def)
  subgoal by (intro allI impI, subst visit_simps, (intro keeps_intros)?;
        simp add: grows_push_simps set_subnodes nest_defs nodesOf_rhs_subset
          pushInnerMethodDefinition_def popInnerMethodDefinition_def)
  subgoal by (intro allI impI, subst visit_simps, (intro keeps_intros)?;
        simp add: grows_push_simps set_subnodes nest_defs nodesOf_rhs_subset
          pushInnerMethodDefinition_def popInnerMethodDefinition_def)
  subgoal by (intro allI impI, subst visit_simps, (intro keeps_intros)?;
        simp add: grows_push_simps set_subnodes nest_defs nodesOf_rhs_subset
          pushInnerMethodDefinition_def popInnerMethodDefinition_def)
  subgoal by (intro allI impI, subst visit_simps, (intro keeps_intros)?;
        simp add: grows_push_simps set_subnodes nest_defs nodesOf_rhs_subset
          pushInnerMethodDefinition_def popInnerMethodDefinition_def)
  subgoal by (intro allI impI, subst visit_simps, (intro keeps_intros)?;
        simp add: grows_push_simps set_subnodes nest_defs nodesOf_rhs_subset
          pushInnerMethodDefinition_def popInnerMethodDefinition_def)
  subgoal by (intro allI impI, subst visit_simps, (intro keeps_intros)?;
        simp add: grows_push_simps set_subnodes nest_defs nodesOf_rhs_subset
          pushInnerMethodDefinition_def popInnerMethodDefinition_def)
  subgoal by (intro allI impI, subst visit_simps, (intro keeps_intros)?;
        simp add: grows_push_simps set_subnodes nest_defs nodesOf_rhs_subset
          pushInnerMethodDefinition_def popInnerMethodDefinition_def)
  subgoal by (intro allI impI, subst visit_simps, (intro keeps_intros)?;
        simp add: grows_push_simps set_subnodes nest_defs nodesOf_rhs_subset
          pushInnerMethodDefinition_def popInnerMethodDefinition_def)
  subgoal by (intro allI impI, subst visit_simps, (intro keeps_intros)?;
        simp add: grows_push_simps set_subnodes nest_defs nodesOf_rhs_subset
          pushInnerMethodDefinition_def popInnerMethodDefinition_def)
  subgoal by (intro allI impI, subst visit_simps, (intro keeps_intros)?;
        simp add: grows_push_simps set_subnodes nest_defs nodesOf_rhs_subset
          pushInnerMethodDefinition_def popInnerMethodDefinition_def)
  subgoal by (intro allI impI, subst visit_simps, (intro keeps_intros)?;
        simp add: grows_push_simps set_subnodes nest_defs nodesOf_rhs_subset
          pushInnerMethodDefinition_def popInnerMethodDefinition_def)
  subgoal by (intro allI impI, subst visit_simps, (intro keeps_intros)?;
        simp add: grows_push_simps set_subnodes nest_defs nodesOf_rhs_subset
          pushInnerMethodDefinition_def popInnerMethodDefinition_def)
  subgoal by (intro allI impI, subst visit_simps, (intro keeps_intros)?;
        simp add: grows_push_simps set_subnodes nest_defs nodesOf_rhs_subset
          pushInnerMethodDefinition_def popInnerMethodDefinition_def)
  subgoal by (intro allI impI, subst visit_simps, (intro keeps_intros)?;
        simp add: grows_push_simps set_subnodes nest_defs nodesOf_rhs_subset
          pushInnerMethodDefinition_def popInnerMethodDefinition_def)
  subgoal by (intro allI impI, subst visit_simps, (intro keeps_intros)?;
        simp add: grows_push_simps set_subnodes nest_defs nodesOf_rhs_subset
          pushInnerMethodDefinition_def popInnerMethodDefinition_def)
  subgoal by (intro allI impI, subst visit_simps, (intro keeps_intros)?;
        simp add: grows_push_simps set_subnodes nest_defs nodesOf_rhs_subset
          pushInnerMethodDefinition_def popInnerMethodDefinition_def)
  subgoal by (intro allI impI, subst visit_simps, (intro keeps_intros)?;
        simp add: grows_push_simps set_subnodes nest_defs nodesOf_rhs_subset
          pushInnerMethodDefinition_def popInnerMethodDefinition_def)
  subgoal by (intro allI impI, subst visit_simps, (intro keeps_intros)?;
        simp add: grows_push_simps set_subnodes nest_defs nodesOf_rhs_subset
          pushInnerMethodDefinition_def popInnerMethodDefinition_def)
  done


lemma grows_visit:
  assumes "visit opts n s = Inr s'" and "set (subnodes n) \<subseteq> N"
  shows "grows N s s'"
  using grows_visit_all(1) [rule_format, OF grows_refl assms(2)] assms(1)
  by (simp add: keeps_def)

lemma grows_visit_list:
  assumes "visit_list opts ns s = Inr s'" and "nodesOf ns \<subseteq> N"
  shows "grows N s s'"
  using grows_visit_all(2) [rule_format, OF grows_refl assms(2)] assms(1)
  by (simp add: keeps_def)

lemma grows_visitPattern:
  assumes "visitPattern opts po prh cb s = Inr s'" and "nodesOf (opt po) \<subseteq> N"
    and "callbackGrows N cb"
  shows "grows N s s'"
  using grows_visit_all(3) [rule_format, OF grows_refl assms(2,3)] assms(1)
  by (simp add: keeps_def)

lemma grows_visitParams:
  assumes "visitParams opts fn ps i s = Inr s'" and "fn \<in> N" and "nodesOf ps \<subseteq> N"
  shows "grows N s s'"
  using grows_visit_all(4) [rule_format, OF grows_refl assms(2,3)] assms(1)
  by (simp add: keeps_def)

lemma grows_visitDeclarations:
  assumes "visitDeclarations opts t vd ds j s = Inr s'" and "vd \<in> N" and "nodesOf ds \<subseteq> N"
  shows "grows N s s'"
  using grows_visit_all(5) [rule_format, OF grows_refl assms(2,3)] assms(1)
  by (simp add: keeps_def)

lemma grows_visitVariableDeclaration:
  assumes "visitVariableDeclaration opts t vd decl j s = Inr s'" and "vd \<in> N"
    and "set (subnodes decl) \<subseteq> N"
  shows "grows N s s'"
  using grows_visit_all(6) [rule_format, OF grows_refl assms(2,3)] assms(1)
  by (simp add: keeps_def)

lemma grows_visitFunction:
  assumes "visitFunction opts f fps fb s = Inr s'" and "f \<in> N" and "nodesOf fps \<subseteq> N"
    and "nodesOf (opt fb) \<subseteq> N"
  shows "grows N s s'"
  using grows_visit_all(7) [rule_format, OF grows_refl assms(2,3,4)] assms(1)
  by (simp add: keeps_def)

lemma grows_visitClass:
  assumes "visitClass opts cl sc b s = Inr s'" and "cl \<in> N" and "nodesOf (opt sc) \<subseteq> N"
    and "set (subnodes b) \<subseteq> N"
  shows "grows N s s'"
  using grows_visit_all(8) [rule_format, OF grows_refl assms(2,3,4)] assms(1)
  by (simp add: keeps_def)

lemma grows_visitProperty:
  assumes "visitProperty opts im c k v s = Inr s'" and "set (subnodes k) \<subseteq> N"
    and "set (subnodes v) \<subseteq> N"
  shows "grows N s s'"
  using grows_visit_all(9) [rule_format, OF grows_refl assms(2,3)] assms(1)
  by (simp add: keeps_def)

lemma grows_visitForIn:
  assumes "visitForIn opts fi l r b s = Inr s'" and "fi \<in> N" and "set (subnodes l) \<subseteq> N"
    and "set (subnodes r) \<subseteq> N" and "set (subnodes b) \<subseteq> N"
  shows "grows N s s'"
  using grows_visit_all(10) [rule_format, OF grows_refl assms(2,3,4,5)] assms(1)
  by (simp add: keeps_def)

section \<open>Closing scopes\<close>

lemma block_closeScope: "block (scopes (closeScope s) ! c) = block (scopes s ! c)"
  by (auto simp: closeScope_def updScope_def Let_def nth_update_field split: list.splits)

lemma currentScopes_closeScope: "currentScopes (closeScope s) = tl (currentScopes s)"
  by (auto simp: closeScope_def updScope_def Let_def split: list.splits)

lemma close_dropWhile:
  "currentScopes (close n s) = dropWhile (\<lambda>c. block (scopes s ! c) = n) (currentScopes s)"
proof (induction n s rule: close.induct)
  case (1 n s)
  show ?case
  proof (cases "currentScopes s")
    case Nil
    then show ?thesis by (simp add: close.simps)
  next
    case (Cons c cs)
    show ?thesis
    proof (cases "n = block (scopes s ! c)")
      case True
      with Cons 1 show ?thesis
        by (subst close.simps) (auto simp: block_closeScope currentScopes_closeScope)
    next
      case False
      with Cons show ?thesis by (subst close.simps) auto
    qed
  qed
qed

text \<open>
  Claim C1, as the code has it. \<open>close\<close> closes the open scopes from the current one
  upwards for as long as their block is the construct, so that both scopes of a named
  function expression are closed for the one construct, and stops at the first open scope
  with another block. It raises no error: when no scope is open it returns the state
  as it is.
\<close>

theorem close_finishes_top_scopes:
  "currentScopes (close n s) = dropWhile (\<lambda>c. block (scopes s ! c) = n) (currentScopes s)
   \<and> close n (s\<lparr>currentScopes := []\<rparr>) = s\<lparr>currentScopes := []\<rparr>"
proof
  show "currentScopes (close n s) = dropWhile (\<lambda>c. block (scopes s ! c) = n) (currentScopes s)"
    by (rule close_dropWhile)
  show "close n (s\<lparr>currentScopes := []\<rparr>) = s\<lparr>currentScopes := []\<rparr>"
    by (simp add: close.simps)
qed

text \<open>
  Claim C1 fails where it says that closing with no scope open is an error: the block
  statement of a script for an edition without block scopes nests nothing, its handler
  calls \<open>close\<close> with no scope open, and the visit returns normally.
\<close>

theorem close_without_scope_counterexample:
  "visit scriptOptions (BlockStatement []) noScopes = Inr noScopes"
  by (simp add: scriptOptions_def noScopes_def close.simps)

section \<open>Import declarations outside a module\<close>

lemma visit_list_import_fails:
  "\<not> (es6 opts \<and> isModule opts) \<Longrightarrow> ImportDeclaration sp src \<in> set ns \<Longrightarrow>
   \<exists>e. visit_list opts ns s = Inl e"
proof (induction ns arbitrary: s)
  case Nil
  then show ?case by simp
next
  case (Cons x xs)
  show ?case
  proof (cases "visit opts x s")
    case (Inl e)
    then show ?thesis by simp
  next
    case (Inr s1)
    show ?thesis
    proof (cases "x = ImportDeclaration sp src")
      case True
      with Inr Cons.prems show ?thesis by auto
    next
      case False
      with Cons Inr show ?thesis by simp
    qed
  qed
qed

text \<open>
  Claim C4, as the code has it. When the analysis is not in module mode of an edition
  with modules, the visit of an import declaration fails with the assertion error, and
  the error is not caught: the visit of a program with such a declaration among its
  statements fails as a whole.
\<close>

theorem import_outside_module_aborts:
  "\<not> (es6 opts \<and> isModule opts) \<Longrightarrow>
   visit opts (ImportDeclaration sp src) s =
     Inl (AssertionError
       ''ImportDeclaration should appear when the mode is ES6 and in the module context.'')
   \<and> (ImportDeclaration sp src \<in> set b \<longrightarrow> (\<exists>e. visit opts (Program b) s = Inl e))"
proof (intro conjI impI)
  assume m: "\<not> (es6 opts \<and> isModule opts)"
  then show "visit opts (ImportDeclaration sp src) s =
     Inl (AssertionError
       ''ImportDeclaration should appear when the mode is ES6 and in the module context.'')"
    by auto
  assume b: "ImportDeclaration sp src \<in> set b"
  show "\<exists>e. visit opts (Program b) s = Inl e"
  proof (cases "nestProgramScopes opts (Program b) s")
    case (Inl e)
    then show ?thesis by simp
  next
    case (Inr s4)
    from visit_list_import_fails [OF m b, of s4] obtain e where
      "visit_list opts b s4 = Inl e" by blast
    with Inr show ?thesis by simp
  qed
qed

text \<open>The hypothesis of C4 holds for a script with one import declaration.\<close>

theorem import_outside_module_aborts_witness:
  "\<not> (es6 scriptOptions \<and> isModule scriptOptions) \<and>
   visit scriptOptions (ImportDeclaration [] (OtherNode ''Literal'' [])) noScopes =
     Inl (AssertionError
       ''ImportDeclaration should appear when the mode is ES6 and in the module context.'')
   \<and> ImportDeclaration [] (OtherNode ''Literal'' []) \<in> set [ImportDeclaration [] (OtherNode ''Literal'' [])]
   \<and> (\<exists>e. visit scriptOptions (Program [ImportDeclaration [] (OtherNode ''Literal'' [])]) noScopes
         = Inl e)"
proof -
  have m: "\<not> (es6 scriptOptions \<and> isModule scriptOptions)"
    by (simp add: scriptOptions_def)
  show ?thesis
    using m import_outside_module_aborts [OF m, of "[]" "OtherNode ''Literal'' []" noScopes
        "[ImportDeclaration [] (OtherNode ''Literal'' [])]"]
    by simp
qed

text \<open>
  Claim C4 fails where it says that the subtree is skipped and the run goes on: the
  visit of the script below ends with the assertion error.
\<close>

theorem import_in_script_counterexample:
  "visit scriptOptions (Program [ImportDeclaration [] (OtherNode ''Literal'' [])]) noScopes =
     Inl (AssertionError
       ''ImportDeclaration should appear when the mode is ES6 and in the module context.'')"
  by (simp add: scriptOptions_def noScopes_def nestProgramScopes_def nestGlobalScope_def
      nest_def Let_def)

section \<open>The open scopes after a visit\<close>

text \<open>
  A visit closes every scope it opens and no other: when it returns, the open scopes
  are those it started with. The scopes a handler opens have the visited node as their
  block, and \<open>close\<close> takes them off again as long as no scope that was open before
  has the same block.
\<close>

text \<open>
  \<open>blockKept s s'\<close>: every scope of \<open>s\<close> is a scope of \<open>s'\<close> with the same block.
\<close>

definition blockKept :: "Referencer \<Rightarrow> Referencer \<Rightarrow> bool" where
  "blockKept s s' \<longleftrightarrow>
     length (scopes s) \<le> length (scopes s') \<and>
     (\<forall>c < length (scopes s). block (scopes s' ! c) = block (scopes s ! c))"

text \<open>
  \<open>good N s\<close>: every open scope of \<open>s\<close> exists and its block is no node of \<open>N\<close>.
  This holds for the nodes of a subtree when the walk reaches it, because the blocks of
  the open scopes are nodes around it.
\<close>

definition good :: "node set \<Rightarrow> Referencer \<Rightarrow> bool" where
  "good N s \<longleftrightarrow>
     (\<forall>c \<in> set (currentScopes s). c < length (scopes s) \<and> block (scopes s ! c) \<notin> N)"

text \<open>
  \<open>linked m s x\<close>: the blocks of the scopes of \<open>s\<close> are kept in \<open>x\<close>, and the open
  scopes of \<open>x\<close> are those of \<open>s\<close>, with scopes created since for the construct \<open>n\<close> on
  top of them when \<open>m\<close> is \<open>Some n\<close>.
\<close>

definition linked :: "node option \<Rightarrow> Referencer \<Rightarrow> Referencer \<Rightarrow> bool" where
  "linked m s x \<longleftrightarrow>
     blockKept s x \<and>
     (case m of
        None \<Rightarrow> currentScopes x = currentScopes s
      | Some n \<Rightarrow>
          (\<exists>ks. currentScopes x = ks @ currentScopes s \<and>
             (\<forall>c \<in> set ks. length (scopes s) \<le> c \<and> c < length (scopes x) \<and>
                block (scopes x ! c) = n)))"

text \<open>
  \<open>returns x r\<close>: a result \<open>r\<close> that is a state has the open scopes of \<open>x\<close>.
  \<open>within m N x r\<close> is the same for a state \<open>x\<close> with \<open>good N x\<close>; its first argument
  only says whether scopes of the construct itself may be open while \<open>r\<close> is computed.
  A callback is inert when it leaves the open scopes as they are.
\<close>

definition returns :: "Referencer \<Rightarrow> error + Referencer \<Rightarrow> bool" where
  "returns x r \<longleftrightarrow> (\<forall>s'. r = Inr s' \<longrightarrow> linked None x s')"

definition within :: "node option \<Rightarrow> node set \<Rightarrow> Referencer \<Rightarrow> error + Referencer \<Rightarrow> bool" where
  "within m N x r \<longleftrightarrow> (good N x \<longrightarrow> returns x r)"

definition callbackInert ::
  "(node \<Rightarrow> PatternInfo \<Rightarrow> Referencer \<Rightarrow> error + Referencer) \<Rightarrow> bool" where
  "callbackInert cb \<longleftrightarrow> (\<forall>p i t t'. cb p i t = Inr t' \<longrightarrow> linked None t t')"

lemma blockKept_refl [simp]: "blockKept s s"
  by (simp add: blockKept_def)

lemma blockKept_trans: "blockKept s x \<Longrightarrow> blockKept x y \<Longrightarrow> blockKept s y"
  by (auto simp: blockKept_def)

lemma linked_refl [simp]: "linked m s s"
  by (cases m) (auto simp: linked_def)

lemma linked_step: "linked m s x \<Longrightarrow> linked None x y \<Longrightarrow> linked m s y"
proof (cases m)
  case None
  then show "linked m s x \<Longrightarrow> linked None x y \<Longrightarrow> linked m s y"
    by (auto simp: linked_def blockKept_def)
next
  case (Some n)
  assume a: "linked m s x" and b: "linked None x y"
  from a Some obtain ks where ks: "currentScopes x = ks @ currentScopes s"
    "\<forall>c \<in> set ks. length (scopes s) \<le> c \<and> c < length (scopes x) \<and> block (scopes x ! c) = n"
    by (auto simp: linked_def)
  from b have y: "currentScopes y = currentScopes x" "length (scopes x) \<le> length (scopes y)"
    "\<forall>c < length (scopes x). block (scopes y ! c) = block (scopes x ! c)"
    by (auto simp: linked_def blockKept_def)
  have "\<forall>c \<in> set ks. length (scopes s) \<le> c \<and> c < length (scopes y) \<and> block (scopes y ! c) = n"
  proof
    fix c assume "c \<in> set ks"
    with ks(2) have "length (scopes s) \<le> c" "c < length (scopes x)" "block (scopes x ! c) = n"
      by auto
    with y show "length (scopes s) \<le> c \<and> c < length (scopes y) \<and> block (scopes y ! c) = n"
      by auto
  qed
  moreover have "blockKept s y"
    using a b by (auto simp: linked_def intro: blockKept_trans)
  ultimately show "linked m s y"
    using Some ks(1) y(1) by (auto simp: linked_def)
qed

lemma linked_weaken: "linked None s x \<Longrightarrow> linked (Some n) s x"
  by (auto simp: linked_def)

lemma good_linked:
  assumes "good N x" and "linked m x y" and "\<And>n. m = Some n \<Longrightarrow> n \<notin> N"
  shows "good N y"
  unfolding good_def
proof
  fix c assume c: "c \<in> set (currentScopes y)"
  have bk: "length (scopes x) \<le> length (scopes y)"
    "\<forall>c < length (scopes x). block (scopes y ! c) = block (scopes x ! c)"
    using assms(2) by (auto simp: linked_def blockKept_def)
  have old: "c \<in> set (currentScopes x) \<Longrightarrow>
      c < length (scopes y) \<and> block (scopes y ! c) \<notin> N"
  proof -
    assume "c \<in> set (currentScopes x)"
    with assms(1) have "c < length (scopes x)" "block (scopes x ! c) \<notin> N"
      by (auto simp: good_def)
    with bk show ?thesis by auto
  qed
  show "c < length (scopes y) \<and> block (scopes y ! c) \<notin> N"
  proof (cases m)
    case None
    with assms(2) c old show ?thesis by (simp add: linked_def)
  next
    case (Some n)
    with assms(2) obtain ks where ks: "currentScopes y = ks @ currentScopes x"
      "\<forall>c \<in> set ks. c < length (scopes y) \<and> block (scopes y ! c) = n"
      by (auto simp: linked_def)
    from assms(3) [OF Some] ks c old show ?thesis by auto
  qed
qed

lemma good_mono: "good N x \<Longrightarrow> M \<subseteq> N \<Longrightarrow> good M x"
  by (auto simp: good_def)

lemma dropWhile_all: "\<forall>x \<in> set xs. P x \<Longrightarrow> dropWhile P (xs @ ys) = dropWhile P ys"
  by (induction xs) auto

lemma dropWhile_none: "\<forall>x \<in> set xs. \<not> P x \<Longrightarrow> dropWhile P xs = xs"
  by (cases xs) auto

lemma length_closeScope [simp]: "length (scopes (closeScope s)) = length (scopes s)"
  by (auto simp: closeScope_def Let_def split: list.splits)

lemma blockKept_closeScope [simp]: "blockKept s (closeScope s)"
  by (simp add: blockKept_def block_closeScope)

lemma blockKept_close [simp]: "blockKept s (close n s)"
  using grows_close [of UNIV s n] by (auto simp: blockKept_def grows_def scopeKept_def)

lemma close_linked:
  assumes "linked (Some n) x y" and "good {n} x"
  shows "linked None x (close n y)"
proof -
  from assms(1) obtain ks where
    ks: "currentScopes y = ks @ currentScopes x"
      "\<forall>c \<in> set ks. block (scopes y ! c) = n"
    and bk: "blockKept x y"
    by (auto simp: linked_def)
  have "\<forall>c \<in> set (currentScopes x). block (scopes y ! c) \<noteq> n"
    using assms(2) bk by (auto simp: good_def blockKept_def)
  then have "currentScopes (close n y) = currentScopes x"
    using ks by (simp add: close_dropWhile dropWhile_all dropWhile_none)
  moreover have "blockKept x (close n y)"
    using bk blockKept_close by (rule blockKept_trans)
  ultimately show ?thesis by (simp add: linked_def)
qed


lemma linked_updScope:
  "(\<And>a. block (f a) = block a) \<Longrightarrow> linked m x (updScope i f y) = linked m x y"
  by (cases m) (simp_all add: linked_def blockKept_def updScope_def nth_update_field)

lemma linked_prims [simp]:
  "linked m x (scope_define i p d y) = linked m x y"
  "linked m x (referencing i r y) = linked m x y"
  "linked m x (detectEval i y) = linked m x y"
  "linked m x (detectThis i y) = linked m x y"
  "linked m x (setStrict i b y) = linked m x y"
  "linked m x (y\<lparr>isInnerMethodDefinition := b'\<rparr>) = linked m x y"
  by (simp_all add: scope_define_def referencing_def detectEval_def detectThis_def setStrict_def
      linked_updScope) (cases m; simp add: linked_def blockKept_def)

lemma linked_nest:
  assumes "linked (Some n) x y"
  shows "linked (Some n) x (nest opts t n mm vs y)"
proof -
  from assms obtain ks where ks: "currentScopes y = ks @ currentScopes x"
    "\<forall>c \<in> set ks. length (scopes x) \<le> c \<and> c < length (scopes y) \<and> block (scopes y ! c) = n"
    and bk: "blockKept x y"
    by (auto simp: linked_def)
  have "currentScopes (nest opts t n mm vs y) = (length (scopes y) # ks) @ currentScopes x"
    using ks(1) by (simp add: nest_def Let_def)
  moreover have "\<forall>c \<in> set (length (scopes y) # ks). length (scopes x) \<le> c \<and>
      c < length (scopes (nest opts t n mm vs y)) \<and> block (scopes (nest opts t n mm vs y) ! c) = n"
    using ks(2) bk by (auto simp: nest_def Let_def nth_append blockKept_def)
  moreover have "blockKept x (nest opts t n mm vs y)"
    using bk by (auto simp: blockKept_def nest_def Let_def nth_append)
  ultimately show ?thesis
    unfolding linked_def by (simp del: append_Cons)
qed

lemma linked_nests [simp]:
  "linked (Some n) x y \<Longrightarrow> linked (Some n) x (nestGlobalScope opts n y)"
  "linked (Some n) x y \<Longrightarrow> linked (Some n) x (nestModuleScope opts n y)"
  "linked (Some n) x y \<Longrightarrow> linked (Some n) x (nestFunctionScope opts n mm y)"
  "linked (Some n) x y \<Longrightarrow> linked (Some n) x (nestBlockScope opts n y)"
  "linked (Some n) x y \<Longrightarrow> linked (Some n) x (nestSwitchScope opts n y)"
  "linked (Some n) x y \<Longrightarrow> linked (Some n) x (nestCatchScope opts n y)"
  "linked (Some n) x y \<Longrightarrow> linked (Some n) x (nestWithScope opts n y)"
  "linked (Some n) x y \<Longrightarrow> linked (Some n) x (nestClassScope opts n y)"
  "linked (Some n) x y \<Longrightarrow> linked (Some n) x (nestForScope opts n y)"
  "linked (Some n) x y \<Longrightarrow> linked (Some n) x (nestFunctionExpressionNameScope opts n y)"
  by (simp_all add: nest_defs linked_nest)

lemma linked_referencingDefaultValue:
  "referencingDefaultValue p as g ini y = Inr y' \<Longrightarrow> linked m x y \<Longrightarrow> linked m x y'"
  by (induction as arbitrary: y) auto

lemma inert_referencingDefaultValue:
  "referencingDefaultValue p as g ini y = Inr y' \<Longrightarrow> linked None y y'"
  "referencingDefaultValue p as g ini (scope_define c q d y) = Inr y' \<Longrightarrow> linked None y y'"
  by (erule linked_referencingDefaultValue, simp)+

lemma callbackInert_simps [simp]:
  "callbackInert (parameterCallback n i)"
  "callbackInert (variableCallback t n k decl i ini)"
  "callbackInert (assignmentCallback n r ap)"
  "callbackInert (forInDeclarationCallback r)"
  "callbackInert (catchCallback n param)"
  "callbackInert (importCallback decl spec)"
  unfolding callbackInert_def parameterCallback_def variableCallback_def assignmentCallback_def
    forInDeclarationCallback_def catchCallback_def importCallback_def
  by (auto simp: Let_def split: option.splits if_splits dest!: inert_referencingDefaultValue)

lemma linked_eachLeaf:
  "eachLeaf cb ls y = Inr y' \<Longrightarrow> callbackInert cb \<Longrightarrow> linked m x y \<Longrightarrow> linked m x y'"
proof (induction ls arbitrary: y)
  case Nil
  then show ?case by simp
next
  case (Cons l ls)
  obtain p i where l: "l = (p, i)" by (cases l)
  from Cons.prems(1) l obtain y1 where y1: "cb p i y = Inr y1" "eachLeaf cb ls y1 = Inr y'"
    by auto
  from y1(1) Cons.prems(2) have "linked None y y1" by (auto simp: callbackInert_def)
  with Cons.prems(3) have "linked m x y1" by (rule linked_step)
  with Cons.IH [OF y1(2) Cons.prems(2)] show ?case .
qed

lemma linked_visitImports:
  "visitImports decl ls y = Inr y' \<Longrightarrow> linked m x y \<Longrightarrow> linked m x y'"
proof (induction ls arbitrary: y)
  case Nil
  then show ?case by simp
next
  case (Cons l ls)
  obtain a b where l: "l = (a, b)" by (cases l)
  from Cons.prems(1) l obtain y1 where
    y1: "eachLeaf (importCallback decl b) (patternLeaves a) y = Inr y1"
      "visitImports decl ls y1 = Inr y'"
    by auto
  from linked_eachLeaf [OF y1(1) _ Cons.prems(2)] have "linked m x y1" by simp
  with Cons.IH [OF y1(2)] show ?case .
qed

lemma linked_nestProgramScopes:
  "nestProgramScopes opts n y = Inr y' \<Longrightarrow> linked (Some n) x y \<Longrightarrow> linked (Some n) x y'"
  by (auto simp: nestProgramScopes_def Let_def split: if_splits)

lemma linked_nestFunctionScopes:
  "nestFunctionScopes opts n y = Inr y' \<Longrightarrow> linked (Some n) x y \<Longrightarrow> linked (Some n) x y'"
  by (auto simp: nestFunctionScopes_def Let_def split: if_splits option.splits)

lemma linked_defineClassDeclaration:
  "defineClassDeclaration n y = Inr y' \<Longrightarrow> linked m x y \<Longrightarrow> linked m x y'"
  by (auto simp: defineClassDeclaration_def split: if_splits option.splits)

lemma linked_nestNamedClassScope:
  "nestNamedClassScope opts n y = Inr y' \<Longrightarrow> linked (Some n) x y \<Longrightarrow> linked (Some n) x y'"
  by (auto simp: nestNamedClassScope_def Let_def split: option.splits)


lemma returns_plain: "within None N x r \<Longrightarrow> good N x \<longrightarrow> returns x r"
  by (simp add: within_def)

lemma returns_bracket: "within (Some n) N x r \<Longrightarrow> good N x \<longrightarrow> returns x r"
  by (simp add: within_def)

lemma returns_plain2: "(Q \<Longrightarrow> within None N x r) \<Longrightarrow> good N x \<longrightarrow> Q \<longrightarrow> returns x r"
  by (simp add: within_def)

lemma returns_bracket2: "(Q \<Longrightarrow> within (Some n) N x r) \<Longrightarrow> good N x \<longrightarrow> Q \<longrightarrow> returns x r"
  by (simp add: within_def)

lemma within_Inl [simp]: "within m N x (Inl e)"
  by (simp add: within_def returns_def)

lemma within_Inr: "linked None x y \<Longrightarrow> within None N x (Inr y)"
  by (simp add: within_def returns_def)

lemma within_close:
  "linked (Some n) x y \<Longrightarrow> n \<in> N \<Longrightarrow> within (Some n) N x (Inr (close n y))"
  by (auto simp: within_def returns_def intro!: close_linked elim: good_mono)

lemma within_if:
  "(c \<Longrightarrow> within m N x a) \<Longrightarrow> (\<not> c \<Longrightarrow> within m N x b) \<Longrightarrow>
   within m N x (if c then a else b)"
  by simp

lemma within_case_option:
  "(v = None \<Longrightarrow> within m N x a) \<Longrightarrow> (\<And>y. v = Some y \<Longrightarrow> within m N x (b y)) \<Longrightarrow>
   within m N x (case v of None \<Rightarrow> a | Some y \<Rightarrow> b y)"
  by (cases v) auto

lemma within_case_list:
  "(v = [] \<Longrightarrow> within m N x a) \<Longrightarrow> (\<And>y ys. v = y # ys \<Longrightarrow> within m N x (b y ys)) \<Longrightarrow>
   within m N x (case v of [] \<Rightarrow> a | y # ys \<Rightarrow> b y ys)"
  by (cases v) auto

lemma within_andThen_currentScope:
  "(\<And>c. currentScope y = Inr c \<Longrightarrow> within m N x (f c)) \<Longrightarrow>
   within m N x (andThen (currentScope y) f)"
  by (auto simp: within_def returns_def)

lemma within_andThen_sub:
  assumes "linked m x y" and "M \<subseteq> N" and "\<And>n. m = Some n \<Longrightarrow> n \<notin> M"
    and "good M y \<longrightarrow> returns y r"
    and "\<And>y'. r = Inr y' \<Longrightarrow> linked m x y' \<Longrightarrow> within m N x (f y')"
  shows "within m N x (andThen r f)"
  unfolding within_def
proof
  assume g: "good N x"
  then have "good M x" using assms(2) by (rule good_mono)
  then have "good M y" using assms(1,3) by (rule good_linked)
  with assms(4) have r: "returns y r" by simp
  show "returns x (andThen r f)"
    unfolding returns_def
  proof (intro allI impI)
    fix s' assume "andThen r f = Inr s'"
    then obtain y' where y': "r = Inr y'" "f y' = Inr s'" by auto
    from r y'(1) have "linked None y y'" by (simp add: returns_def)
    with assms(1) have "linked m x y'" by (rule linked_step)
    from assms(5) [OF y'(1) this] y'(2) g show "linked None x s'"
      by (simp add: within_def returns_def)
  qed
qed

lemma within_sub:
  assumes "linked None x y" and "M \<subseteq> N" and "good M y \<longrightarrow> returns y r"
  shows "within None N x r"
  unfolding within_def
proof
  assume "good N x"
  then have "good M x" using assms(2) by (rule good_mono)
  then have "good M y" using assms(1) by (rule good_linked) simp
  with assms(3) have "returns y r" by simp
  with assms(1) show "returns x r"
    by (auto simp: returns_def intro: linked_step)
qed

lemma within_andThen_step:
  assumes "\<And>y'. r = Inr y' \<Longrightarrow> linked m x y'"
    and "\<And>y'. r = Inr y' \<Longrightarrow> linked m x y' \<Longrightarrow> within m N x (f y')"
  shows "within m N x (andThen r f)"
  using assms by (auto simp: within_def returns_def)

lemmas within_andThen_visit =
  within_andThen_sub [where y = y and r = "visit opts c y" and M = "set (subnodes c)"]
  for opts c y
lemmas within_andThen_visit_list =
  within_andThen_sub [where y = y and r = "visit_list opts ns y" and M = "nodesOf ns"]
  for opts ns y
lemmas within_andThen_visitParams =
  within_andThen_sub [where y = y and r = "visitParams opts fn ps i y" and M = "nodesOf ps"]
  for opts fn ps i y
lemmas within_andThen_visitVariableDeclaration =
  within_andThen_sub [where y = y and r = "visitVariableDeclaration opts t vd decl j y"
    and M = "set (subnodes decl)"]
  for opts t vd decl j y
lemmas within_andThen_visitPattern =
  within_andThen_sub [where y = y and r = "visitPattern opts po prh cb y" and M = "nodesOf (opt po)"]
  for opts po prh cb y

lemmas within_visit = within_sub [where y = y and r = "visit opts c y" and M = "set (subnodes c)"]
  for opts c y
lemmas within_visit_list = within_sub [where y = y and r = "visit_list opts ns y" and M = "nodesOf ns"]
  for opts ns y
lemmas within_visitParams =
  within_sub [where y = y and r = "visitParams opts fn ps i y" and M = "nodesOf ps"] for opts fn ps i y
lemmas within_visitDeclarations =
  within_sub [where y = y and r = "visitDeclarations opts t vd ds j y" and M = "nodesOf ds"]
  for opts t vd ds j y
lemmas within_visitPattern =
  within_sub [where y = y and r = "visitPattern opts po prh cb y" and M = "nodesOf (opt po)"]
  for opts po prh cb y

lemmas within_andThen_eachLeaf = within_andThen_step [where r = "eachLeaf cb ls y"] for cb ls y
lemmas within_andThen_nestProgramScopes =
  within_andThen_step [where r = "nestProgramScopes opts n y"] for opts n y
lemmas within_andThen_nestFunctionScopes =
  within_andThen_step [where r = "nestFunctionScopes opts n y"] for opts n y
lemmas within_andThen_defineClassDeclaration =
  within_andThen_step [where r = "defineClassDeclaration n y"] for n y
lemmas within_andThen_nestNamedClassScope =
  within_andThen_step [where r = "nestNamedClassScope opts n y"] for opts n y

lemma within_visitImports: "linked None x y \<Longrightarrow> within None N x (visitImports decl ls y)"
  by (auto simp: within_def returns_def intro: linked_visitImports)

lemmas within_intros = within_andThen_currentScope within_andThen_visit within_andThen_visit_list
  within_andThen_visitParams within_andThen_visitVariableDeclaration within_andThen_visitPattern
  within_andThen_eachLeaf within_andThen_nestProgramScopes within_andThen_nestFunctionScopes
  within_andThen_defineClassDeclaration within_andThen_nestNamedClassScope
  within_if within_case_option within_case_list within_close within_Inr
  within_visit within_visit_list within_visitParams within_visitDeclarations within_visitPattern
  within_visitImports

lemma subnodes_size: "m \<in> set (subnodes n) \<Longrightarrow> size m \<le> size n"
proof (induction n rule: subnodes.induct)
  case (1 n)
  from "1.prems" have "m = n \<or> (\<exists>c \<in> set (children n). m \<in> set (subnodes c))"
    by (subst (asm) subnodes.simps) auto
  then show ?case
  proof
    assume "m = n" then show ?thesis by simp
  next
    assume "\<exists>c \<in> set (children n). m \<in> set (subnodes c)"
    then obtain c where c: "c \<in> set (children n)" "m \<in> set (subnodes c)" by blast
    from "1.IH" [OF c] size_children [OF c(1)] show ?thesis by simp
  qed
qed

lemma notin_subnodes: "size c < size n \<Longrightarrow> n \<notin> set (subnodes c)"
  using subnodes_size [of n c] by auto

lemma notin_nodesOf: "size_list size ns \<le> size n \<Longrightarrow> n \<notin> nodesOf ns"
proof
  assume a: "size_list size ns \<le> size n" and "n \<in> nodesOf ns"
  then obtain c where c: "c \<in> set ns" "n \<in> set (subnodes c)" by (auto simp: nodesOf_def)
  from subnodes_size [OF c(2)] size_member [OF c(1)] have "size n \<le> size_list size ns" by simp
  moreover have "size c < size_list size ns"
    using c(1) by (induction ns) auto
  ultimately show False using a subnodes_size [OF c(2)] by simp
qed

lemma notin_nodesOf_opt: "size_option size v \<le> size n \<Longrightarrow> n \<notin> nodesOf (opt v)"
  by (cases v) (auto intro!: notin_subnodes)

lemma notin_nodesOf_children: "size c \<le> size n \<Longrightarrow> n \<notin> nodesOf (children c)"
proof
  assume a: "size c \<le> size n" and "n \<in> nodesOf (children c)"
  then obtain d where d: "d \<in> set (children c)" "n \<in> set (subnodes d)"
    by (auto simp: nodesOf_def)
  from subnodes_size [OF d(2)] size_children [OF d(1)] a show False by simp
qed

lemma subnodes_child_subset: "c \<in> set (children n) \<Longrightarrow> set (subnodes c) \<subseteq> set (subnodes n)"
  by (auto simp: set_subnodes [of n] nodesOf_def)

lemma nodesOf_children_subset: "set ns \<subseteq> set (children n) \<Longrightarrow> nodesOf ns \<subseteq> set (subnodes n)"
  by (auto simp: set_subnodes [of n] nodesOf_def)

lemma nodesOf_opt_subset: "set (opt v) \<subseteq> set (children n) \<Longrightarrow> nodesOf (opt v) \<subseteq> set (subnodes n)"
  by (rule nodesOf_children_subset)

lemma andThen_if: "andThen (if c then a else b) f = (if c then andThen a f else andThen b f)"
  by simp

lemma andThen_case_option:
  "andThen (case v of None \<Rightarrow> a | Some y \<Rightarrow> b y) f =
     (case v of None \<Rightarrow> andThen a f | Some y \<Rightarrow> andThen (b y) f)"
  by (cases v) simp_all

lemma andThen_case_list:
  "andThen (case v of [] \<Rightarrow> a | y # ys \<Rightarrow> b y ys) f =
     (case v of [] \<Rightarrow> andThen a f | y # ys \<Rightarrow> andThen (b y ys) f)"
  by (cases v) simp_all

lemma andThen_assoc: "andThen (andThen r g) f = andThen r (\<lambda>y. andThen (g y) f)"
  by (cases r) simp_all

lemmas andThen_normal = andThen_if andThen_case_option andThen_case_list andThen_assoc
  andThen_simp andThen_Inl


lemma delegate1: "good M s \<longrightarrow> R \<Longrightarrow> M \<subseteq> N \<Longrightarrow> good N s \<longrightarrow> R"
  using good_mono by blast

lemma delegate2: "good M s \<longrightarrow> Q \<longrightarrow> R \<Longrightarrow> M \<subseteq> N \<Longrightarrow> Q \<Longrightarrow> good N s \<longrightarrow> R"
  using good_mono by blast

lemma subnodes_unfold_subset: "M \<subseteq> insert n (nodesOf (children n)) \<Longrightarrow> M \<subseteq> set (subnodes n)"
  by (simp add: set_subnodes)

lemma children_subnodes: "x \<in> nodesOf (children c) \<Longrightarrow> x \<in> set (subnodes c)"
  by (simp add: set_subnodes [of c])

lemma declarator_subnodes:
  "x \<in> nodesOf (opt (declaratorInit d)) \<Longrightarrow> x \<in> set (subnodes d)"
  "x \<in> nodesOf (opt (declaratorId d)) \<Longrightarrow> x \<in> set (subnodes d)"
  by (cases d; auto simp: set_subnodes)+

lemma first_declarator_subnodes:
  "declarations l = Some (d # ds) \<Longrightarrow> x \<in> nodesOf (opt (declaratorId d)) \<Longrightarrow>
   x \<in> set (subnodes l)"
  by (cases l; cases d) (auto simp: set_subnodes)

lemma returns_visit_all:
  "good (set (subnodes n)) s \<longrightarrow> returns s (visit opts n s)"
  "good (nodesOf ns) s \<longrightarrow> returns s (visit_list opts ns s)"
  "good (nodesOf (opt po)) s \<longrightarrow> callbackInert cb \<longrightarrow> returns s (visitPattern opts po prh cb s)"
  "good (nodesOf ps) s \<longrightarrow> returns s (visitParams opts fn ps i s)"
  "good (nodesOf ds) s \<longrightarrow> returns s (visitDeclarations opts t vd ds j s)"
  "good (set (subnodes decl)) s \<longrightarrow> returns s (visitVariableDeclaration opts t' vd' decl j' s)"
  "good (insert f (nodesOf fps \<union> nodesOf (opt fb))) s \<longrightarrow> f \<notin> nodesOf fps \<union> nodesOf (opt fb) \<longrightarrow>
      returns s (visitFunction opts f fps fb s)"
  "good (insert cl (nodesOf (opt sc) \<union> set (subnodes cb'))) s \<longrightarrow>
      cl \<notin> nodesOf (opt sc) \<union> set (subnodes cb') \<longrightarrow> returns s (visitClass opts cl sc cb' s)"
  "good (set (subnodes k) \<union> set (subnodes v)) s \<longrightarrow> returns s (visitProperty opts im c k v s)"
  "good (insert fi (set (subnodes l) \<union> set (subnodes r) \<union> set (subnodes b))) s \<longrightarrow>
      fi \<notin> set (subnodes l) \<union> set (subnodes r) \<union> set (subnodes b) \<longrightarrow>
      returns s (visitForIn opts fi l r b s)"
  apply (induction opts n s and opts ns s and opts po prh cb s and opts fn ps i s and opts t vd ds j s
    and opts t' vd' decl j' s and opts f fps fb s and opts cl sc cb' s and opts im c k v s
    and opts fi l r b s rule: visit_induct)
  subgoal
    by (rule returns_plain, subst visit_simps, (simp (no_asm) only: andThen_normal)?,
        (intro within_intros)?; (auto simp: nodesOf_rhs_subset callbackInert_simps pushInnerMethodDefinition_def popInnerMethodDefinition_def
          intro!: notin_subnodes notin_nodesOf notin_nodesOf_opt notin_nodesOf_children
            subnodes_child_subset nodesOf_children_subset
          elim: linked_eachLeaf linked_nestProgramScopes linked_nestFunctionScopes
            linked_defineClassDeclaration linked_nestNamedClassScope
          dest: linked_weaken declarator_subnodes))
  subgoal for opts b s
    by (rule returns_bracket [where n = "Program b"], subst visit_simps, (simp (no_asm) only: andThen_normal)?,
        (intro within_intros)?; (auto simp: nodesOf_rhs_subset callbackInert_simps pushInnerMethodDefinition_def popInnerMethodDefinition_def
          intro!: notin_subnodes notin_nodesOf notin_nodesOf_opt notin_nodesOf_children
            subnodes_child_subset nodesOf_children_subset
          elim: linked_eachLeaf linked_nestProgramScopes linked_nestFunctionScopes
            linked_defineClassDeclaration linked_nestNamedClassScope
          dest: linked_weaken declarator_subnodes))
  subgoal
    by (subst visit_simps, rule delegate2, assumption, rule subnodes_unfold_subset)
       (auto intro!: notin_subnodes notin_nodesOf notin_nodesOf_opt)
  subgoal
    by (subst visit_simps, rule delegate2, assumption, rule subnodes_unfold_subset)
       (auto intro!: notin_subnodes notin_nodesOf notin_nodesOf_opt)
  subgoal
    by (subst visit_simps, rule delegate2, assumption, rule subnodes_unfold_subset)
       (auto intro!: notin_subnodes notin_nodesOf notin_nodesOf_opt)
  subgoal
    by (subst visit_simps, rule delegate2, assumption, rule subnodes_unfold_subset)
       (auto intro!: notin_subnodes notin_nodesOf notin_nodesOf_opt)
  subgoal
    by (subst visit_simps, rule delegate2, assumption, rule subnodes_unfold_subset)
       (auto intro!: notin_subnodes notin_nodesOf notin_nodesOf_opt)
  subgoal for opts b s
    by (rule returns_bracket [where n = "BlockStatement b"], subst visit_simps, (simp (no_asm) only: andThen_normal)?,
        (intro within_intros)?; (auto simp: nodesOf_rhs_subset callbackInert_simps pushInnerMethodDefinition_def popInnerMethodDefinition_def
          intro!: notin_subnodes notin_nodesOf notin_nodesOf_opt notin_nodesOf_children
            subnodes_child_subset nodesOf_children_subset
          elim: linked_eachLeaf linked_nestProgramScopes linked_nestFunctionScopes
            linked_defineClassDeclaration linked_nestNamedClassScope
          dest: linked_weaken declarator_subnodes))
  subgoal
    by (rule returns_plain, subst visit_simps, (simp (no_asm) only: andThen_normal)?,
        (intro within_intros)?; (auto simp: nodesOf_rhs_subset callbackInert_simps pushInnerMethodDefinition_def popInnerMethodDefinition_def
          intro!: notin_subnodes notin_nodesOf notin_nodesOf_opt notin_nodesOf_children
            subnodes_child_subset nodesOf_children_subset
          elim: linked_eachLeaf linked_nestProgramScopes linked_nestFunctionScopes
            linked_defineClassDeclaration linked_nestNamedClassScope
          dest: linked_weaken declarator_subnodes))
  subgoal
    by (rule returns_plain, subst visit_simps, (simp (no_asm) only: andThen_normal)?,
        (intro within_intros)?; (auto simp: nodesOf_rhs_subset callbackInert_simps pushInnerMethodDefinition_def popInnerMethodDefinition_def
          intro!: notin_subnodes notin_nodesOf notin_nodesOf_opt notin_nodesOf_children
            subnodes_child_subset nodesOf_children_subset
          elim: linked_eachLeaf linked_nestProgramScopes linked_nestFunctionScopes
            linked_defineClassDeclaration linked_nestNamedClassScope
          dest: linked_weaken declarator_subnodes))
  subgoal for opts p b s
    by (rule returns_bracket [where n = "CatchClause p b"], subst visit_simps, (simp (no_asm) only: andThen_normal)?,
        (intro within_intros)?; (auto simp: nodesOf_rhs_subset callbackInert_simps pushInnerMethodDefinition_def popInnerMethodDefinition_def
          intro!: notin_subnodes notin_nodesOf notin_nodesOf_opt notin_nodesOf_children
            subnodes_child_subset nodesOf_children_subset
          elim: linked_eachLeaf linked_nestProgramScopes linked_nestFunctionScopes
            linked_defineClassDeclaration linked_nestNamedClassScope
          dest: linked_weaken declarator_subnodes))
  subgoal
    by (rule returns_plain, subst visit_simps, (simp (no_asm) only: andThen_normal)?,
        (intro within_intros)?; (auto simp: nodesOf_rhs_subset callbackInert_simps pushInnerMethodDefinition_def popInnerMethodDefinition_def
          intro!: notin_subnodes notin_nodesOf notin_nodesOf_opt notin_nodesOf_children
            subnodes_child_subset nodesOf_children_subset
          elim: linked_eachLeaf linked_nestProgramScopes linked_nestFunctionScopes
            linked_defineClassDeclaration linked_nestNamedClassScope
          dest: linked_weaken declarator_subnodes))
  subgoal
    by (rule returns_plain, subst visit_simps, (simp (no_asm) only: andThen_normal)?,
        (intro within_intros)?; (auto simp: nodesOf_rhs_subset callbackInert_simps pushInnerMethodDefinition_def popInnerMethodDefinition_def
          intro!: notin_subnodes notin_nodesOf notin_nodesOf_opt notin_nodesOf_children
            subnodes_child_subset nodesOf_children_subset
          elim: linked_eachLeaf linked_nestProgramScopes linked_nestFunctionScopes
            linked_defineClassDeclaration linked_nestNamedClassScope
          dest: linked_weaken declarator_subnodes))
  subgoal
    by (subst visit_simps, rule delegate1, assumption, rule subnodes_unfold_subset) auto
  subgoal
    by (subst visit_simps, rule delegate1, assumption, rule subnodes_unfold_subset) auto
  subgoal
    by (rule returns_plain, subst visit_simps, (simp (no_asm) only: andThen_normal)?,
        (intro within_intros)?; (auto simp: nodesOf_rhs_subset callbackInert_simps pushInnerMethodDefinition_def popInnerMethodDefinition_def
          intro!: notin_subnodes notin_nodesOf notin_nodesOf_opt notin_nodesOf_children
            subnodes_child_subset nodesOf_children_subset
          elim: linked_eachLeaf linked_nestProgramScopes linked_nestFunctionScopes
            linked_defineClassDeclaration linked_nestNamedClassScope
          dest: linked_weaken declarator_subnodes))
  subgoal
    by (rule returns_plain, subst visit_simps, (simp (no_asm) only: andThen_normal)?,
        (intro within_intros)?; (auto simp: nodesOf_rhs_subset callbackInert_simps pushInnerMethodDefinition_def popInnerMethodDefinition_def
          intro!: notin_subnodes notin_nodesOf notin_nodesOf_opt notin_nodesOf_children
            subnodes_child_subset nodesOf_children_subset
          elim: linked_eachLeaf linked_nestProgramScopes linked_nestFunctionScopes
            linked_defineClassDeclaration linked_nestNamedClassScope
          dest: linked_weaken declarator_subnodes))
  subgoal
    by (rule returns_plain, subst visit_simps, (simp (no_asm) only: andThen_normal)?,
        (intro within_intros)?; (auto simp: nodesOf_rhs_subset callbackInert_simps pushInnerMethodDefinition_def popInnerMethodDefinition_def
          intro!: notin_subnodes notin_nodesOf notin_nodesOf_opt notin_nodesOf_children
            subnodes_child_subset nodesOf_children_subset
          elim: linked_eachLeaf linked_nestProgramScopes linked_nestFunctionScopes
            linked_defineClassDeclaration linked_nestNamedClassScope
          dest: linked_weaken declarator_subnodes))
  subgoal for opts i t u b s
    by (rule returns_bracket [where n = "ForStatement i t u b"], subst visit_simps, (simp (no_asm) only: andThen_normal)?,
        (intro within_intros)?; (auto simp: nodesOf_rhs_subset callbackInert_simps pushInnerMethodDefinition_def popInnerMethodDefinition_def
          intro!: notin_subnodes notin_nodesOf notin_nodesOf_opt notin_nodesOf_children
            subnodes_child_subset nodesOf_children_subset
          elim: linked_eachLeaf linked_nestProgramScopes linked_nestFunctionScopes
            linked_defineClassDeclaration linked_nestNamedClassScope
          dest: linked_weaken declarator_subnodes))
  subgoal
    by (subst visit_simps, rule delegate2, assumption, rule subnodes_unfold_subset)
       (auto intro!: notin_subnodes notin_nodesOf notin_nodesOf_opt)
  subgoal
    by (subst visit_simps, rule delegate2, assumption, rule subnodes_unfold_subset)
       (auto intro!: notin_subnodes notin_nodesOf notin_nodesOf_opt)
  subgoal
    by (rule returns_plain, subst visit_simps, (simp (no_asm) only: andThen_normal)?,
        (intro within_intros)?; (auto simp: nodesOf_rhs_subset callbackInert_simps pushInnerMethodDefinition_def popInnerMethodDefinition_def
          intro!: notin_subnodes notin_nodesOf notin_nodesOf_opt notin_nodesOf_children
            subnodes_child_subset nodesOf_children_subset
          elim: linked_eachLeaf linked_nestProgramScopes linked_nestFunctionScopes
            linked_defineClassDeclaration linked_nestNamedClassScope
          dest: linked_weaken declarator_subnodes))
  subgoal
    by (rule returns_plain, subst visit_simps, (simp (no_asm) only: andThen_normal)?,
        (intro within_intros)?; (auto simp: nodesOf_rhs_subset callbackInert_simps pushInnerMethodDefinition_def popInnerMethodDefinition_def
          intro!: notin_subnodes notin_nodesOf notin_nodesOf_opt notin_nodesOf_children
            subnodes_child_subset nodesOf_children_subset
          elim: linked_eachLeaf linked_nestProgramScopes linked_nestFunctionScopes
            linked_defineClassDeclaration linked_nestNamedClassScope
          dest: linked_weaken declarator_subnodes))
  subgoal for opts obj b s
    by (rule returns_bracket [where n = "WithStatement obj b"], subst visit_simps, (simp (no_asm) only: andThen_normal)?,
        (intro within_intros)?; (auto simp: nodesOf_rhs_subset callbackInert_simps pushInnerMethodDefinition_def popInnerMethodDefinition_def
          intro!: notin_subnodes notin_nodesOf notin_nodesOf_opt notin_nodesOf_children
            subnodes_child_subset nodesOf_children_subset
          elim: linked_eachLeaf linked_nestProgramScopes linked_nestFunctionScopes
            linked_defineClassDeclaration linked_nestNamedClassScope
          dest: linked_weaken declarator_subnodes))
  subgoal for opts d cs s
    by (rule returns_bracket [where n = "SwitchStatement d cs"], subst visit_simps, (simp (no_asm) only: andThen_normal)?,
        (intro within_intros)?; (auto simp: nodesOf_rhs_subset callbackInert_simps pushInnerMethodDefinition_def popInnerMethodDefinition_def
          intro!: notin_subnodes notin_nodesOf notin_nodesOf_opt notin_nodesOf_children
            subnodes_child_subset nodesOf_children_subset
          elim: linked_eachLeaf linked_nestProgramScopes linked_nestFunctionScopes
            linked_defineClassDeclaration linked_nestNamedClassScope
          dest: linked_weaken declarator_subnodes))
  subgoal
    by (rule returns_plain, subst visit_simps, (simp (no_asm) only: andThen_normal)?,
        (intro within_intros)?; (auto simp: nodesOf_rhs_subset callbackInert_simps pushInnerMethodDefinition_def popInnerMethodDefinition_def
          intro!: notin_subnodes notin_nodesOf notin_nodesOf_opt notin_nodesOf_children
            subnodes_child_subset nodesOf_children_subset
          elim: linked_eachLeaf linked_nestProgramScopes linked_nestFunctionScopes
            linked_defineClassDeclaration linked_nestNamedClassScope
          dest: linked_weaken declarator_subnodes))
  subgoal
    by (rule returns_plain, subst visit_simps, (simp (no_asm) only: andThen_normal)?,
        (intro within_intros)?; (auto simp: nodesOf_rhs_subset callbackInert_simps pushInnerMethodDefinition_def popInnerMethodDefinition_def
          intro!: notin_subnodes notin_nodesOf notin_nodesOf_opt notin_nodesOf_children
            subnodes_child_subset nodesOf_children_subset
          elim: linked_eachLeaf linked_nestProgramScopes linked_nestFunctionScopes
            linked_defineClassDeclaration linked_nestNamedClassScope
          dest: linked_weaken declarator_subnodes))
  subgoal
    by (rule returns_plain, subst visit_simps, (simp (no_asm) only: andThen_normal)?,
        (intro within_intros)?; (auto simp: nodesOf_rhs_subset callbackInert_simps pushInnerMethodDefinition_def popInnerMethodDefinition_def
          intro!: notin_subnodes notin_nodesOf notin_nodesOf_opt notin_nodesOf_children
            subnodes_child_subset nodesOf_children_subset
          elim: linked_eachLeaf linked_nestProgramScopes linked_nestFunctionScopes
            linked_defineClassDeclaration linked_nestNamedClassScope
          dest: linked_weaken declarator_subnodes))
  subgoal
    by (rule returns_plain, subst visit_simps, (simp (no_asm) only: andThen_normal)?,
        (intro within_intros)?; (auto simp: nodesOf_rhs_subset callbackInert_simps pushInnerMethodDefinition_def popInnerMethodDefinition_def
          intro!: notin_subnodes notin_nodesOf notin_nodesOf_opt notin_nodesOf_children
            subnodes_child_subset nodesOf_children_subset
          elim: linked_eachLeaf linked_nestProgramScopes linked_nestFunctionScopes
            linked_defineClassDeclaration linked_nestNamedClassScope
          dest: linked_weaken declarator_subnodes))
  subgoal
    by (rule returns_plain, subst visit_simps, (simp (no_asm) only: andThen_normal)?,
        (intro within_intros)?; (auto simp: nodesOf_rhs_subset callbackInert_simps pushInnerMethodDefinition_def popInnerMethodDefinition_def
          intro!: notin_subnodes notin_nodesOf notin_nodesOf_opt notin_nodesOf_children
            subnodes_child_subset nodesOf_children_subset
          elim: linked_eachLeaf linked_nestProgramScopes linked_nestFunctionScopes
            linked_defineClassDeclaration linked_nestNamedClassScope
          dest: linked_weaken declarator_subnodes))
  subgoal
    by (rule returns_plain, subst visit_simps, (simp (no_asm) only: andThen_normal)?,
        (intro within_intros)?; (auto simp: nodesOf_rhs_subset callbackInert_simps pushInnerMethodDefinition_def popInnerMethodDefinition_def
          intro!: notin_subnodes notin_nodesOf notin_nodesOf_opt notin_nodesOf_children
            subnodes_child_subset nodesOf_children_subset
          elim: linked_eachLeaf linked_nestProgramScopes linked_nestFunctionScopes
            linked_defineClassDeclaration linked_nestNamedClassScope
          dest: linked_weaken declarator_subnodes))
  subgoal
    by (rule returns_plain, subst visit_simps, (simp (no_asm) only: andThen_normal)?,
        (intro within_intros)?; (auto simp: nodesOf_rhs_subset callbackInert_simps pushInnerMethodDefinition_def popInnerMethodDefinition_def
          intro!: notin_subnodes notin_nodesOf notin_nodesOf_opt notin_nodesOf_children
            subnodes_child_subset nodesOf_children_subset
          elim: linked_eachLeaf linked_nestProgramScopes linked_nestFunctionScopes
            linked_defineClassDeclaration linked_nestNamedClassScope
          dest: linked_weaken declarator_subnodes))
  subgoal
    by (rule returns_plain, subst visit_simps, (simp (no_asm) only: andThen_normal)?,
        (intro within_intros)?; (auto simp: nodesOf_rhs_subset callbackInert_simps pushInnerMethodDefinition_def popInnerMethodDefinition_def
          intro!: notin_subnodes notin_nodesOf notin_nodesOf_opt notin_nodesOf_children
            subnodes_child_subset nodesOf_children_subset
          elim: linked_eachLeaf linked_nestProgramScopes linked_nestFunctionScopes
            linked_defineClassDeclaration linked_nestNamedClassScope
          dest: linked_weaken declarator_subnodes))
  subgoal
    by (rule returns_plain, subst visit_simps, (simp (no_asm) only: andThen_normal)?,
        (intro within_intros)?; (auto simp: nodesOf_rhs_subset callbackInert_simps pushInnerMethodDefinition_def popInnerMethodDefinition_def
          intro!: notin_subnodes notin_nodesOf notin_nodesOf_opt notin_nodesOf_children
            subnodes_child_subset nodesOf_children_subset
          elim: linked_eachLeaf linked_nestProgramScopes linked_nestFunctionScopes
            linked_defineClassDeclaration linked_nestNamedClassScope
          dest: linked_weaken declarator_subnodes))
  subgoal
    by (rule returns_plain, subst visit_simps, (simp (no_asm) only: andThen_normal)?,
        (intro within_intros)?; (auto simp: nodesOf_rhs_subset callbackInert_simps pushInnerMethodDefinition_def popInnerMethodDefinition_def
          intro!: notin_subnodes notin_nodesOf notin_nodesOf_opt notin_nodesOf_children
            subnodes_child_subset nodesOf_children_subset
          elim: linked_eachLeaf linked_nestProgramScopes linked_nestFunctionScopes
            linked_defineClassDeclaration linked_nestNamedClassScope
          dest: linked_weaken declarator_subnodes))
  subgoal
    by (rule returns_plain, subst visit_simps, (simp (no_asm) only: andThen_normal)?,
        (intro within_intros)?; (auto simp: nodesOf_rhs_subset callbackInert_simps pushInnerMethodDefinition_def popInnerMethodDefinition_def
          intro!: notin_subnodes notin_nodesOf notin_nodesOf_opt notin_nodesOf_children
            subnodes_child_subset nodesOf_children_subset
          elim: linked_eachLeaf linked_nestProgramScopes linked_nestFunctionScopes
            linked_defineClassDeclaration linked_nestNamedClassScope
          dest: linked_weaken declarator_subnodes))
  subgoal
    by (rule returns_plain, subst visit_simps, (simp (no_asm) only: andThen_normal)?,
        (intro within_intros)?; (auto simp: nodesOf_rhs_subset callbackInert_simps pushInnerMethodDefinition_def popInnerMethodDefinition_def
          intro!: notin_subnodes notin_nodesOf notin_nodesOf_opt notin_nodesOf_children
            subnodes_child_subset nodesOf_children_subset
          elim: linked_eachLeaf linked_nestProgramScopes linked_nestFunctionScopes
            linked_defineClassDeclaration linked_nestNamedClassScope
          dest: linked_weaken declarator_subnodes))
  subgoal
    by (rule returns_plain, subst visit_simps, (simp (no_asm) only: andThen_normal)?,
        (intro within_intros)?; (auto simp: nodesOf_rhs_subset callbackInert_simps pushInnerMethodDefinition_def popInnerMethodDefinition_def
          intro!: notin_subnodes notin_nodesOf notin_nodesOf_opt notin_nodesOf_children
            subnodes_child_subset nodesOf_children_subset
          elim: linked_eachLeaf linked_nestProgramScopes linked_nestFunctionScopes
            linked_defineClassDeclaration linked_nestNamedClassScope
          dest: linked_weaken declarator_subnodes))
  subgoal
    by (rule returns_plain, subst visit_simps, (simp (no_asm) only: andThen_normal)?,
        (intro within_intros)?; (auto simp: nodesOf_rhs_subset callbackInert_simps pushInnerMethodDefinition_def popInnerMethodDefinition_def
          intro!: notin_subnodes notin_nodesOf notin_nodesOf_opt notin_nodesOf_children
            subnodes_child_subset nodesOf_children_subset
          elim: linked_eachLeaf linked_nestProgramScopes linked_nestFunctionScopes
            linked_defineClassDeclaration linked_nestNamedClassScope
          dest: linked_weaken declarator_subnodes))
  subgoal
    by (rule returns_plain, subst visit_simps, (simp (no_asm) only: andThen_normal)?,
        (intro within_intros)?; (auto simp: nodesOf_rhs_subset callbackInert_simps pushInnerMethodDefinition_def popInnerMethodDefinition_def
          intro!: notin_subnodes notin_nodesOf notin_nodesOf_opt notin_nodesOf_children
            subnodes_child_subset nodesOf_children_subset
          elim: linked_eachLeaf linked_nestProgramScopes linked_nestFunctionScopes
            linked_defineClassDeclaration linked_nestNamedClassScope
          dest: linked_weaken declarator_subnodes))
  subgoal
    by (rule returns_plain2, subst visit_simps, (simp (no_asm) only: andThen_normal)?,
        (intro within_intros)?; (auto simp: nodesOf_rhs_subset callbackInert_simps pushInnerMethodDefinition_def popInnerMethodDefinition_def
          intro!: notin_subnodes notin_nodesOf notin_nodesOf_opt notin_nodesOf_children
            subnodes_child_subset nodesOf_children_subset
          elim: linked_eachLeaf linked_nestProgramScopes linked_nestFunctionScopes
            linked_defineClassDeclaration linked_nestNamedClassScope
          dest: linked_weaken declarator_subnodes))
  subgoal
    by (rule returns_plain2, subst visit_simps, (simp (no_asm) only: andThen_normal)?,
        (intro within_intros)?; (auto simp: nodesOf_rhs_subset callbackInert_simps pushInnerMethodDefinition_def popInnerMethodDefinition_def
          intro!: notin_subnodes notin_nodesOf notin_nodesOf_opt notin_nodesOf_children
            subnodes_child_subset nodesOf_children_subset
          elim: linked_eachLeaf linked_nestProgramScopes linked_nestFunctionScopes
            linked_defineClassDeclaration linked_nestNamedClassScope
          dest: linked_weaken declarator_subnodes))
  subgoal
    by (rule returns_plain, subst visit_simps, (simp (no_asm) only: andThen_normal)?,
        (intro within_intros)?; (auto simp: nodesOf_rhs_subset callbackInert_simps pushInnerMethodDefinition_def popInnerMethodDefinition_def
          intro!: notin_subnodes notin_nodesOf notin_nodesOf_opt notin_nodesOf_children
            subnodes_child_subset nodesOf_children_subset
          elim: linked_eachLeaf linked_nestProgramScopes linked_nestFunctionScopes
            linked_defineClassDeclaration linked_nestNamedClassScope
          dest: linked_weaken declarator_subnodes))
  subgoal
    by (rule returns_plain, subst visit_simps, (simp (no_asm) only: andThen_normal)?,
        (intro within_intros)?; (auto simp: nodesOf_rhs_subset callbackInert_simps pushInnerMethodDefinition_def popInnerMethodDefinition_def
          intro!: notin_subnodes notin_nodesOf notin_nodesOf_opt notin_nodesOf_children
            subnodes_child_subset nodesOf_children_subset
          elim: linked_eachLeaf linked_nestProgramScopes linked_nestFunctionScopes
            linked_defineClassDeclaration linked_nestNamedClassScope
          dest: linked_weaken declarator_subnodes))
  subgoal
    by (rule returns_plain, subst visit_simps, (simp (no_asm) only: andThen_normal)?,
        (intro within_intros)?; (auto simp: nodesOf_rhs_subset callbackInert_simps pushInnerMethodDefinition_def popInnerMethodDefinition_def
          intro!: notin_subnodes notin_nodesOf notin_nodesOf_opt notin_nodesOf_children
            subnodes_child_subset nodesOf_children_subset
          elim: linked_eachLeaf linked_nestProgramScopes linked_nestFunctionScopes
            linked_defineClassDeclaration linked_nestNamedClassScope
          dest: linked_weaken declarator_subnodes))
  subgoal
    by (rule returns_plain, subst visit_simps, (simp (no_asm) only: andThen_normal)?,
        (intro within_intros)?; (auto simp: nodesOf_rhs_subset callbackInert_simps pushInnerMethodDefinition_def popInnerMethodDefinition_def
          intro!: notin_subnodes notin_nodesOf notin_nodesOf_opt notin_nodesOf_children
            subnodes_child_subset nodesOf_children_subset
          elim: linked_eachLeaf linked_nestProgramScopes linked_nestFunctionScopes
            linked_defineClassDeclaration linked_nestNamedClassScope
          dest: linked_weaken declarator_subnodes))
  subgoal
    by (subst visit_simps, rule delegate2, assumption) (auto dest: declarator_subnodes)
  subgoal for opts n ps b s
    by (rule returns_bracket2 [where n = "n"], subst visit_simps, (simp (no_asm) only: andThen_normal)?,
        (intro within_intros)?; (auto simp: nodesOf_rhs_subset callbackInert_simps pushInnerMethodDefinition_def popInnerMethodDefinition_def
          elim: linked_eachLeaf linked_nestProgramScopes linked_nestFunctionScopes
            linked_defineClassDeclaration linked_nestNamedClassScope
          dest: linked_weaken declarator_subnodes children_subnodes first_declarator_subnodes))
  subgoal for opts n sc b s
    by (rule returns_bracket2 [where n = "n"], subst visit_simps, (simp (no_asm) only: andThen_normal)?,
        (intro within_intros)?; (auto simp: nodesOf_rhs_subset callbackInert_simps pushInnerMethodDefinition_def popInnerMethodDefinition_def
          elim: linked_eachLeaf linked_nestProgramScopes linked_nestFunctionScopes
            linked_defineClassDeclaration linked_nestNamedClassScope
          dest: linked_weaken declarator_subnodes children_subnodes first_declarator_subnodes))
  subgoal
    by (rule returns_plain, subst visit_simps, (simp (no_asm) only: andThen_normal)?,
        (intro within_intros)?; (auto simp: nodesOf_rhs_subset callbackInert_simps pushInnerMethodDefinition_def popInnerMethodDefinition_def
          intro!: notin_subnodes notin_nodesOf notin_nodesOf_opt notin_nodesOf_children
            subnodes_child_subset nodesOf_children_subset
          elim: linked_eachLeaf linked_nestProgramScopes linked_nestFunctionScopes
            linked_defineClassDeclaration linked_nestNamedClassScope
          dest: linked_weaken declarator_subnodes))
  subgoal for opts n l r b s
    by (rule returns_bracket2 [where n = "n"], subst visit_simps, (simp (no_asm) only: andThen_normal)?,
        (intro within_intros)?; (auto simp: nodesOf_rhs_subset callbackInert_simps pushInnerMethodDefinition_def popInnerMethodDefinition_def
          elim: linked_eachLeaf linked_nestProgramScopes linked_nestFunctionScopes
            linked_defineClassDeclaration linked_nestNamedClassScope
          dest: linked_weaken declarator_subnodes children_subnodes first_declarator_subnodes))
  done

lemma returns_visit:
  "visit opts n s = Inr s' \<Longrightarrow> good (set (subnodes n)) s \<Longrightarrow> linked None s s'"
  using returns_visit_all(1) [of n s opts] by (simp add: returns_def)

lemma returns_visit_list:
  "visit_list opts ns s = Inr s' \<Longrightarrow> good (nodesOf ns) s \<Longrightarrow> linked None s s'"
  using returns_visit_all(2) [of ns s opts] by (simp add: returns_def)

lemma returns_visitPattern:
  "visitPattern opts po prh cb s = Inr s' \<Longrightarrow> good (nodesOf (opt po)) s \<Longrightarrow> callbackInert cb \<Longrightarrow>
   linked None s s'"
  using returns_visit_all(3) [of po s cb opts prh] by (simp add: returns_def)

lemma returns_visitParams:
  "visitParams opts fn ps i s = Inr s' \<Longrightarrow> good (nodesOf ps) s \<Longrightarrow> linked None s s'"
  using returns_visit_all(4) [of ps s opts fn i] by (simp add: returns_def)

lemma returns_visitDeclarations:
  "visitDeclarations opts t vd ds j s = Inr s' \<Longrightarrow> good (nodesOf ds) s \<Longrightarrow> linked None s s'"
  using returns_visit_all(5) [of ds s opts t vd j] by (simp add: returns_def)

section \<open>The implied-strict hint\<close>

text \<open>
  The scope that is current when the handler \<open>Program\<close> has nested its scopes: the
  Global scope, the Function scope after it when the manager asks for a Node.js scope,
  the Module scope after these for an ES6 module.
\<close>

definition programScope :: "Options \<Rightarrow> Referencer \<Rightarrow> nat" where
  "programScope opts s =
     length (scopes s) + (if nodejsScope opts then 1 else 0)
       + (if es6 opts \<and> isModule opts then 1 else 0)"

text \<open>A script with a Node.js scope, for an edition that has a strict mode.\<close>

definition nodejsOptions :: Options where
  "nodejsOptions = scriptOptions\<lparr>nodejsScope := True, strictModeSupported := True\<rparr>"

text \<open>The state after the visit of the empty program with the hint, under a Node.js scope.\<close>

definition nodejsResult :: Referencer where
  "nodejsResult =
     \<lparr>scopes =
        [\<lparr>stype = Global, block = Program [], upper = None, variableScope = 0,
          isStrict = False, variables = [], references = [], through = [],
          dynamic = False, thisFound = False\<rparr>,
         \<lparr>stype = Function, block = Program [], upper = Some 0, variableScope = 1,
          isStrict = True, variables = [], references = [], through = [],
          dynamic = False, thisFound = False\<rparr>],
      currentScopes = [], isInnerMethodDefinition = False\<rparr>"

lemma currentScope_nest_simps [simp]:
  "currentScope (nest opts t n m vs s) = Inr (length (scopes s))"
  by (simp add: nest_def currentScope_def Let_def)

lemma nest_impliedStrict [simp]:
  "nest (opts\<lparr>impliedStrict := b\<rparr>) t n m vs s = nest opts t n m vs s"
  by (simp add: nest_def)

lemma length_scopes_nest [simp]: "length (scopes (nest opts t n m vs s)) = Suc (length (scopes s))"
  by (simp add: nest_def Let_def)

lemma length_scopes_updScope [simp]: "length (scopes (updScope i f s)) = length (scopes s)"
  by (simp add: updScope_def)

lemma currentScope_updScope [simp]: "currentScope (updScope i f s) = currentScope s"
  by (simp add: updScope_def currentScope_def)

lemma stype_nest_new [simp]:
  "i = length (scopes s) \<Longrightarrow> stype (scopes (nest opts t n m vs s) ! i) = t"
  by (simp add: nest_def Let_def)

lemma stype_updScope [simp]:
  "(\<And>a. stype (f a) = stype a) \<Longrightarrow> stype (scopes (updScope i f s) ! c) = stype (scopes s ! c)"
  by (simp add: updScope_def nth_update_field)

lemma isStrict_setStrict:
  "isStrict (scopes (setStrict i b s) ! j) =
     (if j = i \<and> i < length (scopes s) then b else isStrict (scopes s ! j))"
  by (cases "i < length (scopes s)") (auto simp: setStrict_def updScope_def list_update_beyond)

lemma isStrict_nest_old:
  "j < length (scopes s) \<Longrightarrow> isStrict (scopes (nest opts t n m vs s) ! j) = isStrict (scopes s ! j)"
  by (simp add: nest_def Let_def nth_append)

lemma length_scopes_setStrict [simp]: "length (scopes (setStrict i b s)) = length (scopes s)"
  by (simp add: setStrict_def)

lemma grows_isStrict:
  "grows N s s' \<Longrightarrow> i < length (scopes s) \<Longrightarrow> isStrict (scopes s' ! i) = isStrict (scopes s ! i)"
  by (simp add: grows_def scopeKept_def)

lemma nestProgramScopes_strict:
  assumes "nestProgramScopes opts n s = Inr s4"
  shows "programScope opts s < length (scopes s4)"
    and "strictModeSupported opts \<Longrightarrow> impliedStrict opts \<Longrightarrow> isStrict (scopes s4 ! programScope opts s)"
    and "nodejsScope opts \<Longrightarrow> \<not> isStrict (scopes s4 ! length (scopes s))"
  using assms
  by (auto simp: nestProgramScopes_def programScope_def nest_defs Let_def isStrict_setStrict
      isStrict_nest_old split: if_splits)

lemma visit_nodejs_empty:
  "visit (nodejsOptions\<lparr>impliedStrict := True\<rparr>) (Program []) noScopes = Inr nodejsResult"
  by (simp add: nodejsOptions_def scriptOptions_def noScopes_def nestProgramScopes_def nest_defs
      nest_def Let_def setStrict_def updScope_def currentScope_def close.simps closeScope_def
      isVariableScopeType_def nodejsResult_def)

text \<open>
  Claim C6, as the code has it. Nesting the scopes of a program with the hint gives
  what nesting them without the hint gives, except that, when the manager supports a
  strict mode, the scope that is current afterwards is made strict. That scope is the
  Global scope only for a plain script; it is the Function scope under a Node.js scope
  and the Module scope for an ES6 module. Without support for a strict mode the hint
  changes nothing. When the visit of the program returns, that scope is still strict,
  and under a Node.js scope the Global scope is not strict.
\<close>

theorem implied_strict_sets_current_program_scope:
  "(\<exists>s0. nestProgramScopes (opts\<lparr>impliedStrict := False\<rparr>) (Program b) s = Inr s0
     \<and> currentScope s0 = Inr (programScope opts s)
     \<and> stype (scopes s0 ! programScope opts s) =
         (if es6 opts \<and> isModule opts then Module else if nodejsScope opts then Function else Global)
     \<and> nestProgramScopes (opts\<lparr>impliedStrict := True\<rparr>) (Program b) s =
         Inr (if strictModeSupported opts then setStrict (programScope opts s) True s0 else s0))
   \<and> (\<forall>s'. visit (opts\<lparr>impliedStrict := True\<rparr>) (Program b) s = Inr s' \<longrightarrow>
         (strictModeSupported opts \<longrightarrow> isStrict (scopes s' ! programScope opts s)) \<and>
         (nodejsScope opts \<longrightarrow> \<not> isStrict (scopes s' ! length (scopes s))))"
proof (intro conjI allI impI)
  show "\<exists>s0. nestProgramScopes (opts\<lparr>impliedStrict := False\<rparr>) (Program b) s = Inr s0
     \<and> currentScope s0 = Inr (programScope opts s)
     \<and> stype (scopes s0 ! programScope opts s) =
         (if es6 opts \<and> isModule opts then Module else if nodejsScope opts then Function else Global)
     \<and> nestProgramScopes (opts\<lparr>impliedStrict := True\<rparr>) (Program b) s =
         Inr (if strictModeSupported opts then setStrict (programScope opts s) True s0 else s0)"
    by (simp add: nestProgramScopes_def programScope_def nest_defs Let_def setStrict_def)
next
  fix s'
  let ?o = "opts\<lparr>impliedStrict := True\<rparr>"
  assume v: "visit ?o (Program b) s = Inr s'"
  then obtain s4 s5 where
    s4: "nestProgramScopes ?o (Program b) s = Inr s4"
    and s5: "visit_list ?o b s4 = Inr s5" and s': "s' = close (Program b) s5"
    by auto
  from grows_visit_list [OF s5 subset_refl] s' have g: "grows (nodesOf b) s4 s'"
    by (simp add: grows_pushes)
  note n = nestProgramScopes_strict [OF s4]
  have ps: "programScope ?o s = programScope opts s" by (simp add: programScope_def)
  have k: "length (scopes s) < length (scopes s4)"
    using n(1) by (simp add: programScope_def split: if_splits)
  {
    assume "strictModeSupported opts"
    with n(2) grows_isStrict [OF g, of "programScope opts s"] n(1) ps
    show "isStrict (scopes s' ! programScope opts s)" by simp
  }
  {
    assume "nodejsScope opts"
    with n(3) grows_isStrict [OF g k]
    show "\<not> isStrict (scopes s' ! length (scopes s))" by simp
  }
qed

text \<open>The hypotheses of C6 hold for the empty program under a Node.js scope.\<close>

theorem implied_strict_sets_current_program_scope_witness:
  "visit (nodejsOptions\<lparr>impliedStrict := True\<rparr>) (Program []) noScopes = Inr nodejsResult
   \<and> strictModeSupported nodejsOptions \<and> nodejsScope nodejsOptions
   \<and> isStrict (scopes nodejsResult ! programScope nodejsOptions noScopes)
   \<and> \<not> isStrict (scopes nodejsResult ! length (scopes noScopes))"
proof -
  have a: "strictModeSupported nodejsOptions" "nodejsScope nodejsOptions"
    by (simp_all add: nodejsOptions_def scriptOptions_def)
  from implied_strict_sets_current_program_scope [of nodejsOptions "[]" noScopes, THEN conjunct2,
      rule_format, OF visit_nodejs_empty] a visit_nodejs_empty
  show ?thesis by blast
qed

text \<open>
  Claim C6 fails under a Node.js scope: the Global scope of the empty program is not
  strict with or without the hint, and it is the Function scope that the hint makes
  strict.
\<close>

theorem implied_strict_nodejs_counterexample:
  "visit (nodejsOptions\<lparr>impliedStrict := True\<rparr>) (Program []) noScopes =
     Inr \<lparr>scopes =
            [\<lparr>stype = Global, block = Program [], upper = None, variableScope = 0,
              isStrict = False, variables = [], references = [], through = [],
              dynamic = False, thisFound = False\<rparr>,
             \<lparr>stype = Function, block = Program [], upper = Some 0, variableScope = 1,
              isStrict = True, variables = [], references = [], through = [],
              dynamic = False, thisFound = False\<rparr>],
          currentScopes = [], isInnerMethodDefinition = False\<rparr>
   \<and> visit (nodejsOptions\<lparr>impliedStrict := False\<rparr>) (Program []) noScopes =
     Inr \<lparr>scopes =
            [\<lparr>stype = Global, block = Program [], upper = None, variableScope = 0,
              isStrict = False, variables = [], references = [], through = [],
              dynamic = False, thisFound = False\<rparr>,
             \<lparr>stype = Function, block = Program [], upper = Some 0, variableScope = 1,
              isStrict = False, variables = [], references = [], through = [],
              dynamic = False, thisFound = False\<rparr>],
          currentScopes = [], isInnerMethodDefinition = False\<rparr>"
  by (simp add: nodejsOptions_def scriptOptions_def noScopes_def nestProgramScopes_def nest_defs
      nest_def Let_def setStrict_def updScope_def currentScope_def close.simps closeScope_def
      isVariableScopeType_def)

section \<open>Assignment to a pattern\<close>

text \<open>\<open>addReferences c rs\<close> records the references \<open>rs\<close>, in order, in the scope \<open>c\<close>.\<close>

definition addReferences :: "nat \<Rightarrow> Reference list \<Rightarrow> Referencer \<Rightarrow> Referencer" where
  "addReferences c rs = updScope c (\<lambda>sc. sc\<lparr>references := references sc @ rs\<rparr>)"

text \<open>
  What the callback of \<open>AssignmentExpression\<close> records at one leaf of the left side: a
  write per assignment pattern around the leaf, with that pattern's default value as the
  value written, and after them the write of the right side of the assignment. All of
  them carry the implicit-global candidate when the scope is not strict, and none of them
  is an initialising write.
\<close>

definition leafWrites :: "node \<Rightarrow> node \<Rightarrow> bool \<Rightarrow> bool \<Rightarrow> node \<times> PatternInfo \<Rightarrow> Reference list" where
  "leafWrites n right alwaysPartial strict leaf =
     (let pattern = fst leaf; info = snd leaf;
          g = (if \<not> strict then Some (pattern, n) else None)
      in map (\<lambda>a. mkReference pattern WRITE (assignmentRight a) g
                     (Some pattern \<noteq> assignmentLeft a) False) (assignments info)
         @ [mkReference pattern WRITE (Some right) g (alwaysPartial \<or> \<not> topLevel info) False])"

text \<open>
  The assignment \<open>[a = 0] = x\<close>, as an expression statement, and a walk that has opened
  the Global scope of an empty script.
\<close>

definition defaultAssign :: node where
  "defaultAssign =
     AssignmentExpression ''=''
       (ArrayPattern [AssignmentPattern (Identifier ''a'') (OtherNode ''Literal'' [])])
       (Identifier ''x'')"

definition globalOpen :: Referencer where
  "globalOpen = nestGlobalScope scriptOptions (Program []) noScopes"

lemma updScope_updScope: "updScope c f (updScope c g s) = updScope c (\<lambda>x. f (g x)) s"
  by (cases "c < length (scopes s)") (simp_all add: updScope_def list_update_beyond)

lemma addReferences_Nil [simp]: "addReferences c [] s = s"
  by (simp add: addReferences_def updScope_def)

lemma addReferences_append:
  "addReferences c rs' (addReferences c rs s) = addReferences c (rs @ rs') s"
  by (simp add: addReferences_def updScope_updScope)

lemma referencing_addReferences: "referencing c r s = addReferences c [r] s"
  by (simp add: referencing_def addReferences_def)

lemma currentScope_addReferences [simp]: "currentScope (addReferences c rs s) = currentScope s"
  by (simp add: addReferences_def updScope_def currentScope_def)

lemma isStrict_addReferences [simp]:
  "isStrict (scopes (addReferences c rs s) ! i) = isStrict (scopes s ! i)"
  by (simp add: addReferences_def updScope_def nth_update_field)

lemma referencingDefaultValue_adds:
  "currentScope s = Inr c \<Longrightarrow>
   referencingDefaultValue p as g ini s =
     Inr (addReferences c
            (map (\<lambda>a. mkReference p WRITE (assignmentRight a) g (Some p \<noteq> assignmentLeft a) ini) as) s)"
proof (induction as arbitrary: s)
  case Nil
  then show ?case by simp
next
  case (Cons a as)
  then show ?case
    by (simp add: referencing_addReferences addReferences_append)
qed

lemma assignmentCallback_adds:
  "currentScope s = Inr c \<Longrightarrow>
   assignmentCallback n right ap p info s =
     Inr (addReferences c (leafWrites n right ap (isStrict (scopes s ! c)) (p, info)) s)"
  by (simp add: assignmentCallback_def Let_def referencingDefaultValue_adds leafWrites_def
      referencing_addReferences addReferences_append)

lemma eachLeaf_assignmentCallback:
  "currentScope s = Inr c \<Longrightarrow>
   eachLeaf (assignmentCallback n right ap) ls s =
     Inr (addReferences c (concat (map (leafWrites n right ap (isStrict (scopes s ! c))) ls)) s)"
proof (induction ls arbitrary: s)
  case Nil
  then show ?case by simp
next
  case (Cons l ls)
  obtain p info where l: "l = (p, info)" by (cases l)
  show ?case
    using Cons.prems
    by (simp add: l assignmentCallback_adds Cons.IH addReferences_append)
qed

text \<open>
  Claim C5, as the code has it. With a pattern on the left and the operator \<open>=\<close>, the
  visit records in the current scope, for every leaf of the pattern in order, the writes
  of \<open>leafWrites\<close>: one write per default value around the leaf and one write of the
  right side, the implicit-global candidate on each of them exactly when the current
  scope is not strict, and the init flag on none of them; it then visits the default
  values and the right side. With a compound operator it records one read-write
  reference to the left side and visits the right side.
\<close>

theorem assignment_pattern_references:
  assumes "isPattern l" and "currentScope s = Inr c"
  shows "visit opts (AssignmentExpression oper l r) s =
     (if oper = ''=''
      then andThen
             (visit_list opts (rightHandNodes l)
                (addReferences c
                   (concat (map (leafWrites (AssignmentExpression oper l r) r False
                                   (isStrict (scopes s ! c))) (patternLeaves l))) s))
             (visit opts r)
      else visit opts r (addReferences c [mkReference l RW (Some r) None False False] s))"
  using assms by (simp add: eachLeaf_assignmentCallback referencing_addReferences)

text \<open>The hypotheses of C5 hold for \<open>[a = 0] = x\<close> in the Global scope of a script.\<close>

theorem assignment_pattern_references_witness:
  "isPattern (ArrayPattern [AssignmentPattern (Identifier ''a'') (OtherNode ''Literal'' [])])
   \<and> currentScope globalOpen = Inr 0
   \<and> visit scriptOptions defaultAssign globalOpen =
       Inr (addReferences 0
              [mkReference (Identifier ''a'') WRITE (Some (OtherNode ''Literal'' []))
                 (Some (Identifier ''a'', defaultAssign)) False False,
               mkReference (Identifier ''a'') WRITE (Some (Identifier ''x''))
                 (Some (Identifier ''a'', defaultAssign)) True False,
               mkReference (Identifier ''x'') READ None None False False]
              globalOpen)"
proof -
  have p: "isPattern (ArrayPattern [AssignmentPattern (Identifier ''a'') (OtherNode ''Literal'' [])])"
    by simp
  have c: "currentScope globalOpen = Inr 0"
    by (simp add: globalOpen_def noScopes_def nest_defs)
  have strict: "\<not> isStrict (scopes globalOpen ! 0)"
    by (simp add: globalOpen_def noScopes_def scriptOptions_def nest_defs nest_def Let_def)
  show ?thesis
    using p c assignment_pattern_references [OF p c, of scriptOptions "''=''" "Identifier ''x''",
        folded defaultAssign_def]
    by (simp add: patternLeaves_def leafWrites_def strict Let_def
        referencing_addReferences addReferences_append)
qed

text \<open>
  Claim C5 fails where it says that the default values are recorded as initialising
  writes: in the script \<open>[a = 0] = x\<close> the write of the default value to \<open>a\<close> has no
  init flag.
\<close>

theorem assignment_default_not_init_counterexample:
  "visit scriptOptions (Program [OtherNode ''ExpressionStatement'' [defaultAssign]]) noScopes =
     Inr \<lparr>scopes =
            [\<lparr>stype = Global,
              block = Program [OtherNode ''ExpressionStatement'' [defaultAssign]],
              upper = None, variableScope = 0, isStrict = False, variables = [],
              references =
                [\<lparr>ridentifier = Identifier ''a'', flag = WRITE,
                  writeExpr = Some (OtherNode ''Literal'' []),
                  maybeImplicitGlobal = Some (Identifier ''a'', defaultAssign),
                  partial = False, init = False\<rparr>,
                 \<lparr>ridentifier = Identifier ''a'', flag = WRITE,
                  writeExpr = Some (Identifier ''x''),
                  maybeImplicitGlobal = Some (Identifier ''a'', defaultAssign),
                  partial = True, init = False\<rparr>,
                 \<lparr>ridentifier = Identifier ''x'', flag = READ, writeExpr = None,
                  maybeImplicitGlobal = None, partial = False, init = False\<rparr>],
              through = [], dynamic = False, thisFound = False\<rparr>],
          currentScopes = [], isInnerMethodDefinition = False\<rparr>"
  by (simp add: defaultAssign_def scriptOptions_def noScopes_def nestProgramScopes_def nest_defs
      nest_def Let_def patternLeaves_def assignmentCallback_def currentScope_def referencing_def
      updScope_def mkReference_def close.simps closeScope_def isVariableScopeType_def)

section \<open>The loop variable of a for-in or for-of statement\<close>

text \<open>
  What \<open>visitForIn\<close> records for a left side that is a declaration: at every leaf of
  the pattern of the first declarator, a write of the right side of the loop that is
  partial and initialising. The callback asks for the current scope only when it is
  called, so a pattern without a leaf records nothing and needs no open scope.
\<close>

definition forInWrites :: "node \<Rightarrow> node \<Rightarrow> Reference list" where
  "forInWrites right p =
     map (\<lambda>leaf. mkReference (fst leaf) WRITE (Some right) None True True) (patternLeaves p)"

definition recordForInWrites :: "node \<Rightarrow> node option \<Rightarrow> Referencer \<Rightarrow> error + Referencer" where
  "recordForInWrites right po s =
     (case po of
        None \<Rightarrow> Inr s
      | Some p \<Rightarrow>
          if patternLeaves p = [] then Inr s
          else andThen (currentScope s) (\<lambda>c. Inr (addReferences c (forInWrites right p) s)))"

text \<open>The loop \<open>for (var [a, b] in x) ;\<close>, its declaration and its declarator.\<close>

definition forInPairDeclarator :: node where
  "forInPairDeclarator =
     VariableDeclarator (ArrayPattern [Identifier ''a'', Identifier ''b'']) None"

definition forInPairLeft :: node where
  "forInPairLeft = VariableDeclaration ''var'' [forInPairDeclarator]"

definition forInPair :: node where
  "forInPair = ForInStatement forInPairLeft (Identifier ''x'') (OtherNode ''EmptyStatement'' [])"

lemma forInDeclarationCallback_adds:
  "currentScope s = Inr c \<Longrightarrow>
   forInDeclarationCallback right p info s =
     Inr (addReferences c [mkReference p WRITE (Some right) None True True] s)"
  by (simp add: forInDeclarationCallback_def referencing_addReferences)

lemma forInDeclarationCallback_fails:
  "currentScope s = Inl e \<Longrightarrow> forInDeclarationCallback right p info s = Inl e"
  by (simp add: forInDeclarationCallback_def)

lemma eachLeaf_forInDeclarationCallback:
  "eachLeaf (forInDeclarationCallback right) ls s =
     (if ls = [] then Inr s
      else andThen (currentScope s) (\<lambda>c.
             Inr (addReferences c
                    (map (\<lambda>leaf. mkReference (fst leaf) WRITE (Some right) None True True) ls) s)))"
proof (induction ls arbitrary: s)
  case Nil
  then show ?case by simp
next
  case (Cons l ls)
  obtain p info where l: "l = (p, info)" by (cases l)
  show ?case
  proof (cases "currentScope s")
    case (Inl e)
    then show ?thesis by (simp add: l forInDeclarationCallback_fails)
  next
    case (Inr c)
    then show ?thesis
      by (simp add: l forInDeclarationCallback_adds Cons.IH addReferences_append)
  qed
qed

lemma andThen_return [simp]: "andThen r (\<lambda>x. Inr x) = r"
  by (cases r) simp_all

lemma visitPattern_forIn:
  "visitPattern opts po False (forInDeclarationCallback right) s = recordForInWrites right po s"
  by (cases po) (simp_all add: recordForInWrites_def eachLeaf_forInDeclarationCallback forInWrites_def)

text \<open>
  Claim C10, as the code has it. The visit of a for-in or for-of statement whose left
  side is a declaration visits the declaration (in the For scope when the declaration is
  block-scoped), then records in the scope that is current the loop writes of the first
  declarator's pattern, one for every leaf name of that pattern: each has the loop's
  right side as the value written and both the partial and the init flag. Nothing is
  recorded for the other declarators at that point. The right side and the body are
  visited after that, and the For scope is closed.
\<close>

theorem for_in_declaration_writes:
  assumes "n = ForInStatement l r b \<or> n = ForOfStatement l r b"
    and "declarations l = Some (d # ds)"
  shows "visit opts n s =
     andThen (visit opts l (if isLexicalDeclaration (Some l) then nestForScope opts n s else s))
       (\<lambda>s2. andThen (recordForInWrites r (declaratorId d) s2)
          (\<lambda>s3. andThen (visit opts r s3)
             (\<lambda>s4. andThen (visit opts b s4) (\<lambda>s5. Inr (close n s5)))))"
  using assms by (auto simp: visitForIn.simps visitPattern_forIn andThen_assoc)

text \<open>The hypotheses of C10 hold for the loop \<open>for (var [a, b] in x) ;\<close>.\<close>

theorem for_in_declaration_writes_witness:
  "(forInPair = ForInStatement forInPairLeft (Identifier ''x'') (OtherNode ''EmptyStatement'' [])
      \<or> forInPair = ForOfStatement forInPairLeft (Identifier ''x'') (OtherNode ''EmptyStatement'' []))
   \<and> declarations forInPairLeft = Some (forInPairDeclarator # [])
   \<and> visit scriptOptions forInPair globalOpen =
       andThen
         (visit scriptOptions forInPairLeft
            (if isLexicalDeclaration (Some forInPairLeft)
             then nestForScope scriptOptions forInPair globalOpen else globalOpen))
         (\<lambda>s2. andThen (recordForInWrites (Identifier ''x'') (declaratorId forInPairDeclarator) s2)
            (\<lambda>s3. andThen (visit scriptOptions (Identifier ''x'') s3)
               (\<lambda>s4. andThen (visit scriptOptions (OtherNode ''EmptyStatement'' []) s4)
                  (\<lambda>s5. Inr (close forInPair s5)))))"
proof -
  have n: "forInPair = ForInStatement forInPairLeft (Identifier ''x'') (OtherNode ''EmptyStatement'' [])
      \<or> forInPair = ForOfStatement forInPairLeft (Identifier ''x'') (OtherNode ''EmptyStatement'' [])"
    by (simp add: forInPair_def)
  have d: "declarations forInPairLeft = Some (forInPairDeclarator # [])"
    by (simp add: forInPairLeft_def)
  from n d for_in_declaration_writes [OF n d, of scriptOptions globalOpen]
  show ?thesis by (intro conjI)
qed

text \<open>
  Claim C10 fails where it says that exactly one loop write is recorded: the pattern of
  the first declarator of \<open>for (var [a, b] in x) ;\<close> has two leaf names, and the visit
  records a loop write for each of them.
\<close>

theorem for_in_two_writes_counterexample:
  "visit scriptOptions forInPair globalOpen =
     Inr (addReferences 0
            [mkReference (Identifier ''a'') WRITE (Some (Identifier ''x'')) None True True,
             mkReference (Identifier ''b'') WRITE (Some (Identifier ''x'')) None True True,
             mkReference (Identifier ''x'') READ None None False False]
            (scope_define 0 (Identifier ''b'')
               (mkDefinition Variable (Identifier ''b'') forInPairDeclarator (Some forInPairLeft)
                  (Some 0) (Some ''var''))
               (scope_define 0 (Identifier ''a'')
                  (mkDefinition Variable (Identifier ''a'') forInPairDeclarator
                     (Some forInPairLeft) (Some 0) (Some ''var''))
                  globalOpen)))"
  by (simp add: forInPair_def forInPairLeft_def forInPairDeclarator_def globalOpen_def
      scriptOptions_def noScopes_def nest_defs nest_def Let_def visitForIn.simps
      visitVariableDeclaration.simps patternLeaves_def variableCallback_def
      forInDeclarationCallback_def currentScope_def referencing_def scope_define_def
      addReferences_def updScope_def close.simps isVariableScopeType_def)

section \<open>Variable declarations\<close>

text \<open>
  The bindings of a scope that belong to the construct \<open>n\<close>, in the order of their
  definition.
\<close>

definition ownBindings :: "node \<Rightarrow> Scope \<Rightarrow> (node \<times> Definition) list" where
  "ownBindings n sc = filter (\<lambda>pd. defOwner (snd pd) = n) (variables sc)"

text \<open>
  \<open>owned n t vs s s'\<close>: from \<open>s\<close> to \<open>s'\<close> the scope \<open>t\<close> has received the bindings \<open>vs\<close> for
  the construct \<open>n\<close>, in this order after those it had, and no other scope has received
  a binding for \<open>n\<close>.
\<close>

definition owned ::
  "node \<Rightarrow> nat \<Rightarrow> (node \<times> Definition) list \<Rightarrow> Referencer \<Rightarrow> Referencer \<Rightarrow> bool" where
  "owned n t vs s s' \<longleftrightarrow>
     length (scopes s) \<le> length (scopes s') \<and>
     ownBindings n (scopes s' ! t) = ownBindings n (scopes s ! t) @ vs \<and>
     (\<forall>i < length (scopes s'). i \<noteq> t \<longrightarrow>
        ownBindings n (scopes s' ! i) =
          (if i < length (scopes s) then ownBindings n (scopes s ! i) else []))"

text \<open>
  The bindings that the claim C3 expects of a declaration \<open>n\<close> of kind \<open>k\<close>: for the
  declarator at position \<open>i\<close>, a Variable for every leaf name of its pattern, which
  carries the declarator, the declaration, the position and the kind; \<open>declaredFrom\<close>
  lists them for the declarators from position \<open>i\<close> on.
\<close>

definition declaratorBindings ::
  "node \<Rightarrow> string option \<Rightarrow> nat \<Rightarrow> node \<Rightarrow> (node \<times> Definition) list" where
  "declaratorBindings n k i decl =
     map (\<lambda>leaf. (fst leaf, mkDefinition Variable (fst leaf) decl (Some n) (Some i) k))
       (concat (map patternLeaves (opt (declaratorId decl))))"

fun declaredFrom :: "node \<Rightarrow> string option \<Rightarrow> nat \<Rightarrow> node list \<Rightarrow> (node \<times> Definition) list" where
  "declaredFrom n k i [] = []"
| "declaredFrom n k i (decl # ds) = declaratorBindings n k i decl @ declaredFrom n k (Suc i) ds"

text \<open>The declaration \<open>var a, b = x\<close>.\<close>

definition twoVars :: node where
  "twoVars =
     VariableDeclaration ''var''
       [VariableDeclarator (Identifier ''a'') None,
        VariableDeclarator (Identifier ''b'') (Some (Identifier ''x''))]"

lemma owned_refl [simp]: "owned n t [] s s"
  by (simp add: owned_def)

lemma owned_trans:
  assumes "owned n t vs s s1" and "owned n t ws s1 s2" and "t < length (scopes s)"
  shows "owned n t (vs @ ws) s s2"
  unfolding owned_def
proof (intro conjI allI impI)
  show "length (scopes s) \<le> length (scopes s2)"
    using assms by (simp add: owned_def)
  show "ownBindings n (scopes s2 ! t) = ownBindings n (scopes s ! t) @ vs @ ws"
    using assms by (simp add: owned_def)
  fix i assume i: "i < length (scopes s2)" "i \<noteq> t"
  show "ownBindings n (scopes s2 ! i) =
      (if i < length (scopes s) then ownBindings n (scopes s ! i) else [])"
  proof (cases "i < length (scopes s1)")
    case True
    with assms i show ?thesis by (simp add: owned_def)
  next
    case False
    moreover from assms(1) have "length (scopes s) \<le> length (scopes s1)" by (simp add: owned_def)
    ultimately show ?thesis using assms(2) i by (simp add: owned_def)
  qed
qed

lemma owned_length: "owned n t vs s s' \<Longrightarrow> t < length (scopes s) \<Longrightarrow> t < length (scopes s')"
  by (simp add: owned_def)

lemma owned_grows:
  assumes "grows N s s'" and "n \<notin> N" and "t < length (scopes s)"
  shows "owned n t [] s s'"
  unfolding owned_def
proof (intro conjI allI impI)
  show len: "length (scopes s) \<le> length (scopes s')"
    using assms(1) by (simp add: grows_def)
  have kept: "ownBindings n (scopes s' ! i) = ownBindings n (scopes s ! i)"
    if "i < length (scopes s)" for i
  proof -
    from assms(1) that have "scopeKept N (scopes s ! i) (scopes s' ! i)"
      by (simp add: grows_def)
    then obtain vs where vs: "variables (scopes s' ! i) = variables (scopes s ! i) @ vs"
      "\<forall>pd \<in> set vs. defOwner (snd pd) \<in> N"
      by (auto simp: scopeKept_def)
    from vs(2) assms(2) have "filter (\<lambda>pd. defOwner (snd pd) = n) vs = []"
      by (auto simp: filter_empty_conv)
    with vs(1) show ?thesis by (simp add: ownBindings_def)
  qed
  have new: "ownBindings n (scopes s' ! i) = []"
    if "length (scopes s) \<le> i" "i < length (scopes s')" for i
  proof -
    from assms(1) that have "scopeNew N (scopes s' ! i)" by (simp add: grows_def)
    with assms(2) show ?thesis
      by (auto simp: scopeNew_def ownBindings_def filter_empty_conv)
  qed
  show "ownBindings n (scopes s' ! t) = ownBindings n (scopes s ! t) @ []"
    using assms(3) by (simp add: kept)
  fix i assume "i < length (scopes s')" "i \<noteq> t"
  then show "ownBindings n (scopes s' ! i) =
      (if i < length (scopes s) then ownBindings n (scopes s ! i) else [])"
    using kept new by (cases "i < length (scopes s)") simp_all
qed


lemma owned_updScope:
  "(\<And>a. variables (f a) = variables a) \<Longrightarrow> owned n t [] s (updScope i f s)"
  by (simp add: owned_def ownBindings_def updScope_def nth_update_field)

lemma owned_prims [simp]:
  "owned n t [] s (referencing i r s)"
  "owned n t [] s (addReferences i rs s)"
  by (simp_all add: referencing_def addReferences_def owned_updScope)

lemma owned_scope_define:
  "t < length (scopes s) \<Longrightarrow> defOwner d = n \<Longrightarrow> owned n t [(p, d)] s (scope_define t p d s)"
  by (auto simp: owned_def ownBindings_def scope_define_def updScope_def)

lemma owned_step:
  "owned n t vs s s1 \<Longrightarrow> owned n t [] s1 s2 \<Longrightarrow> t < length (scopes s) \<Longrightarrow> owned n t vs s s2"
  using owned_trans [of n t vs s s1 "[]" s2] by simp

lemma owned_referencingDefaultValue:
  "referencingDefaultValue p as g ini s = Inr s' \<Longrightarrow> owned n t [] s s'"
proof (induction as arbitrary: s)
  case Nil
  then show ?case by simp
next
  case (Cons a as)
  from Cons.prems obtain c where c: "currentScope s = Inr c" by auto
  with Cons.prems show ?case
    by (auto simp: referencingDefaultValue_adds referencing_addReferences addReferences_append)
qed

lemma defOwner_Variable [simp]: "defOwner (mkDefinition ty p decl (Some n) i k) = n"
  by (simp add: defOwner_def mkDefinition_def)

lemma owned_variableCallback:
  assumes "variableCallback t n kind decl i ini p info s = Inr s'" and "t < length (scopes s)"
  shows "owned n t [(p, mkDefinition Variable p decl (Some n) (Some i) kind)] s s'"
proof -
  let ?d = "mkDefinition Variable p decl (Some n) (Some i) kind"
  let ?s0 = "scope_define t p ?d s"
  from assms(1) obtain s1 where
    s1: "referencingDefaultValue p (assignments info) None True ?s0 = Inr s1"
    and s': "(case ini of None \<Rightarrow> Inr s1
       | Some e \<Rightarrow> andThen (currentScope s1) (\<lambda>c.
           Inr (referencing c (mkReference p WRITE (Some e) None (\<not> topLevel info) True) s1))) = Inr s'"
    by (auto simp: variableCallback_def)
  have a: "owned n t [(p, ?d)] s ?s0"
    using assms(2) by (simp add: owned_scope_define)
  have b: "owned n t [] ?s0 s1"
    using s1 by (rule owned_referencingDefaultValue)
  have c: "owned n t [] s1 s'"
    using s' by (cases ini) auto
  from owned_step [OF owned_step [OF a b assms(2)] c assms(2)] show ?thesis .
qed

lemma owned_eachLeaf_variableCallback:
  "eachLeaf (variableCallback t n kind decl i ini) ls s = Inr s' \<Longrightarrow> t < length (scopes s) \<Longrightarrow>
   owned n t (map (\<lambda>leaf. (fst leaf, mkDefinition Variable (fst leaf) decl (Some n) (Some i) kind)) ls)
     s s'"
proof (induction ls arbitrary: s)
  case Nil
  then show ?case by simp
next
  case (Cons l ls)
  obtain p info where l: "l = (p, info)" by (cases l)
  from Cons.prems(1) l obtain s1 where
    s1: "variableCallback t n kind decl i ini p info s = Inr s1"
      "eachLeaf (variableCallback t n kind decl i ini) ls s1 = Inr s'"
    by auto
  from owned_variableCallback [OF s1(1) Cons.prems(2)]
  have a: "owned n t [(p, mkDefinition Variable p decl (Some n) (Some i) kind)] s s1" .
  then have "t < length (scopes s1)" using Cons.prems(2) by (rule owned_length)
  from Cons.IH [OF s1(2) this] owned_trans [OF a _ Cons.prems(2)] show ?case
    by (simp add: l)
qed

lemma owned_visitVariableDeclaration:
  assumes "visitVariableDeclaration opts t n decl i s = Inr s'" and "t < length (scopes s)"
    and "nodesOf (opt (declaratorId decl)) \<subseteq> N" and "n \<notin> N"
  shows "owned n t (declaratorBindings n (declarationKind n) i decl) s s'"
proof (cases "declaratorId decl")
  case None
  with assms(1) show ?thesis
    by (simp add: visitVariableDeclaration.simps declaratorBindings_def)
next
  case (Some p)
  let ?cb = "variableCallback t n (declarationKind n) decl i (declaratorInit decl)"
  from assms(1) Some obtain s1 where
    s1: "eachLeaf ?cb (patternLeaves p) s = Inr s1" "visit_list opts (rightHandNodes p) s1 = Inr s'"
    by (auto simp: visitVariableDeclaration.simps)
  from owned_eachLeaf_variableCallback [OF s1(1) assms(2)]
  have a: "owned n t (declaratorBindings n (declarationKind n) i decl) s s1"
    by (simp add: declaratorBindings_def Some)
  then have t1: "t < length (scopes s1)" using assms(2) by (rule owned_length)
  have "nodesOf (rightHandNodes p) \<subseteq> N"
    using assms(3) Some by (intro nodesOf_rhs_subset) simp
  from grows_visit_list [OF s1(2) this] have "grows N s1 s'" .
  from owned_grows [OF this assms(4) t1] have "owned n t [] s1 s'" .
  with a show ?thesis using assms(2) by (rule owned_step)
qed

lemma owned_visitDeclarations:
  "visitDeclarations opts t n ds i s = Inr s' \<Longrightarrow> t < length (scopes s) \<Longrightarrow>
   nodesOf ds \<subseteq> N \<Longrightarrow> n \<notin> N \<Longrightarrow>
   owned n t (declaredFrom n (declarationKind n) i ds) s s'"
proof (induction ds arbitrary: i s)
  case Nil
  then show ?case by simp
next
  case (Cons decl ds)
  from Cons.prems(1) obtain s1 s2 where
    s1: "visitVariableDeclaration opts t n decl i s = Inr s1"
    and s2: "visit_list opts (opt (declaratorInit decl)) s1 = Inr s2"
    and s': "visitDeclarations opts t n ds (Suc i) s2 = Inr s'"
    by auto
  have sub: "set (subnodes decl) \<subseteq> N" "nodesOf ds \<subseteq> N"
    using Cons.prems(3) by simp_all
  have id: "nodesOf (opt (declaratorId decl)) \<subseteq> N" "nodesOf (opt (declaratorInit decl)) \<subseteq> N"
    using sub(1) by (auto dest: declarator_subnodes)
  from owned_visitVariableDeclaration [OF s1 Cons.prems(2) id(1) Cons.prems(4)]
  have a: "owned n t (declaratorBindings n (declarationKind n) i decl) s s1" .
  then have t1: "t < length (scopes s1)" using Cons.prems(2) by (rule owned_length)
  from grows_visit_list [OF s2 id(2)] have "grows N s1 s2" .
  from owned_grows [OF this Cons.prems(4) t1] have b: "owned n t [] s1 s2" .
  from owned_step [OF a b Cons.prems(2)]
  have ab: "owned n t (declaratorBindings n (declarationKind n) i decl) s s2" .
  then have t2: "t < length (scopes s2)" using Cons.prems(2) by (rule owned_length)
  from Cons.IH [OF s' t2 sub(2) Cons.prems(4)]
  have "owned n t (declaredFrom n (declarationKind n) (Suc i) ds) s2 s'" .
  with ab show ?case using Cons.prems(2) by (simp add: owned_trans)
qed

text \<open>
  Claim C3. The visit of a variable declaration defines its bindings in the target
  scope, which is the variable scope of the current scope for \<open>var\<close> and the current
  scope itself for every other kind: the target scope receives, after the bindings it
  had, a Variable for every leaf name of every declarator, in order, which carries the
  declarator, the declaring statement, the declarator's index and the kind; no other
  scope receives a binding of this declaration.
\<close>

theorem variable_declaration_target:
  assumes "visit opts (VariableDeclaration k ds) s = Inr s'"
    and "currentScope s = Inr c"
    and "t = (if k = ''var'' then variableScope (scopes s ! c) else c)"
    and "t < length (scopes s)"
  shows "owned (VariableDeclaration k ds) t
           (declaredFrom (VariableDeclaration k ds) (Some k) 0 ds) s s'"
proof -
  have "VariableDeclaration k ds \<notin> nodesOf ds"
    by (rule notin_nodesOf) simp
  from owned_visitDeclarations [OF _ assms(4) subset_refl this, of opts 0 s'] assms(1,2,3)
  show ?thesis by simp
qed

text \<open>The hypotheses of C3 hold for \<open>var a, b = x\<close> in the Global scope of a script.\<close>

theorem variable_declaration_target_witness:
  "visit scriptOptions twoVars globalOpen =
     Inr (addReferences 0
            [mkReference (Identifier ''b'') WRITE (Some (Identifier ''x'')) None False True,
             mkReference (Identifier ''x'') READ None None False False]
            (scope_define 0 (Identifier ''b'')
               (mkDefinition Variable (Identifier ''b'')
                  (VariableDeclarator (Identifier ''b'') (Some (Identifier ''x'')))
                  (Some twoVars) (Some 1) (Some ''var''))
               (scope_define 0 (Identifier ''a'')
                  (mkDefinition Variable (Identifier ''a'')
                     (VariableDeclarator (Identifier ''a'') None) (Some twoVars) (Some 0)
                     (Some ''var''))
                  globalOpen)))
   \<and> currentScope globalOpen = Inr 0
   \<and> (0::nat) = (if ''var'' = ''var'' then variableScope (scopes globalOpen ! 0) else 0)
   \<and> 0 < length (scopes globalOpen)
   \<and> owned twoVars 0
        [(Identifier ''a'',
          mkDefinition Variable (Identifier ''a'') (VariableDeclarator (Identifier ''a'') None)
            (Some twoVars) (Some 0) (Some ''var'')),
         (Identifier ''b'',
          mkDefinition Variable (Identifier ''b'')
            (VariableDeclarator (Identifier ''b'') (Some (Identifier ''x'')))
            (Some twoVars) (Some 1) (Some ''var''))]
        globalOpen
        (addReferences 0
            [mkReference (Identifier ''b'') WRITE (Some (Identifier ''x'')) None False True,
             mkReference (Identifier ''x'') READ None None False False]
            (scope_define 0 (Identifier ''b'')
               (mkDefinition Variable (Identifier ''b'')
                  (VariableDeclarator (Identifier ''b'') (Some (Identifier ''x'')))
                  (Some twoVars) (Some 1) (Some ''var''))
               (scope_define 0 (Identifier ''a'')
                  (mkDefinition Variable (Identifier ''a'')
                     (VariableDeclarator (Identifier ''a'') None) (Some twoVars) (Some 0)
                     (Some ''var''))
                  globalOpen)))"
proof -
  let ?s' = "addReferences 0
            [mkReference (Identifier ''b'') WRITE (Some (Identifier ''x'')) None False True,
             mkReference (Identifier ''x'') READ None None False False]
            (scope_define 0 (Identifier ''b'')
               (mkDefinition Variable (Identifier ''b'')
                  (VariableDeclarator (Identifier ''b'') (Some (Identifier ''x'')))
                  (Some twoVars) (Some 1) (Some ''var''))
               (scope_define 0 (Identifier ''a'')
                  (mkDefinition Variable (Identifier ''a'')
                     (VariableDeclarator (Identifier ''a'') None) (Some twoVars) (Some 0)
                     (Some ''var''))
                  globalOpen))"
  have v: "visit scriptOptions (VariableDeclaration ''var''
       [VariableDeclarator (Identifier ''a'') None,
        VariableDeclarator (Identifier ''b'') (Some (Identifier ''x''))]) globalOpen = Inr ?s'"
    by (simp add: twoVars_def globalOpen_def scriptOptions_def noScopes_def nest_defs nest_def
        Let_def visitVariableDeclaration.simps patternLeaves_def variableCallback_def
        currentScope_def referencing_def scope_define_def addReferences_def updScope_def
        isVariableScopeType_def)
  have c: "currentScope globalOpen = Inr 0"
    by (simp add: globalOpen_def noScopes_def nest_defs)
  have t: "(0::nat) = (if ''var'' = ''var'' then variableScope (scopes globalOpen ! 0) else 0)"
    by (simp add: globalOpen_def noScopes_def nest_defs nest_def Let_def isVariableScopeType_def)
  have l: "0 < length (scopes globalOpen)"
    by (simp add: globalOpen_def noScopes_def nest_defs)
  from v c t l variable_declaration_target [OF v c t l]
  show ?thesis
    by (simp add: twoVars_def declaratorBindings_def patternLeaves_def)
qed

section \<open>The For scope of a loop\<close>

text \<open>
  The loops, and the left side of a for-in or for-of statement or the init of a for
  statement, when there is one.
\<close>

fun loopHead :: "node \<Rightarrow> node option" where
  "loopHead (ForStatement i t u b) = i"
| "loopHead (ForInStatement l r b) = Some l"
| "loopHead (ForOfStatement l r b) = Some l"
| "loopHead n = None"

fun isLoop :: "node \<Rightarrow> bool" where
  "isLoop (ForStatement i t u b) = True"
| "isLoop (ForInStatement l r b) = True"
| "isLoop (ForOfStatement l r b) = True"
| "isLoop n = False"

text \<open>The scopes created from \<open>s\<close> to \<open>s'\<close> whose block is \<open>n\<close>, in creation order.\<close>

definition newScopesOf :: "node \<Rightarrow> Referencer \<Rightarrow> Referencer \<Rightarrow> nat list" where
  "newScopesOf n s s' =
     filter (\<lambda>k. block (scopes s' ! k) = n) [length (scopes s)..<length (scopes s')]"

text \<open>The state after the visit of \<open>for (var [a, b] in x) ;\<close> in the Global scope.\<close>

definition forInPairResult :: Referencer where
  "forInPairResult =
     addReferences 0
       [mkReference (Identifier ''a'') WRITE (Some (Identifier ''x'')) None True True,
        mkReference (Identifier ''b'') WRITE (Some (Identifier ''x'')) None True True,
        mkReference (Identifier ''x'') READ None None False False]
       (scope_define 0 (Identifier ''b'')
          (mkDefinition Variable (Identifier ''b'') forInPairDeclarator (Some forInPairLeft)
             (Some 0) (Some ''var''))
          (scope_define 0 (Identifier ''a'')
             (mkDefinition Variable (Identifier ''a'') forInPairDeclarator
                (Some forInPairLeft) (Some 0) (Some ''var''))
             globalOpen))"

text \<open>
  The loop \<open>for (let i;;) ;\<close>, its declaration, and the state after its visit in the
  Global scope: the For scope has the binding of \<open>i\<close> and is closed.
\<close>

definition letLoopLeft :: node where
  "letLoopLeft = VariableDeclaration ''let'' [VariableDeclarator (Identifier ''i'') None]"

definition letLoop :: node where
  "letLoop = ForStatement (Some letLoopLeft) None None (OtherNode ''EmptyStatement'' [])"

definition letLoopResult :: Referencer where
  "letLoopResult =
     (scope_define 1 (Identifier ''i'')
        (mkDefinition Variable (Identifier ''i'') (VariableDeclarator (Identifier ''i'') None)
           (Some letLoopLeft) (Some 0) (Some ''let''))
        (nest es6Options For letLoop False [] globalOpen))
     \<lparr>currentScopes := [0]\<rparr>"

lemma newScopesOf_none:
  assumes "grows N s s'" and "n \<notin> N"
  shows "newScopesOf n s s' = []"
  using assms by (auto simp: newScopesOf_def filter_empty_conv grows_def scopeNew_def)

lemma filter_upt_single:
  "a \<le> k \<Longrightarrow> k < b \<Longrightarrow> \<forall>i. a \<le> i \<and> i < b \<longrightarrow> (P i \<longleftrightarrow> i = k) \<Longrightarrow> filter P [a..<b] = [k]"
proof -
  assume k: "a \<le> k" "k < b" and P: "\<forall>i. a \<le> i \<and> i < b \<longrightarrow> (P i \<longleftrightarrow> i = k)"
  have "[a..<b] = [a..<k] @ k # [Suc k..<b]"
    using k by (metis le_add_diff_inverse less_imp_le_nat upt_add_eq_append upt_conv_Cons)
  moreover have "filter P [a..<k] = []" using P k by (auto simp: filter_empty_conv)
  moreover have "filter P [Suc k..<b] = []" using P k by (auto simp: filter_empty_conv)
  moreover have "P k" using P k by simp
  ultimately show ?thesis by simp
qed

lemma newScopesOf_nest:
  assumes "grows N (nest opts t n m vs s) s'" and "n \<notin> N"
  shows "newScopesOf n s s' = [length (scopes s)]"
    and "stype (scopes s' ! length (scopes s)) = t"
    and "upper (scopes s' ! length (scopes s)) = (case currentScopes s of [] \<Rightarrow> None | c # cs \<Rightarrow> Some c)"
proof -
  let ?s0 = "nest opts t n m vs s"
  let ?k = "length (scopes s)"
  have len: "Suc ?k \<le> length (scopes s')"
    using assms(1) by (simp add: grows_def)
  have kept: "scopeKept N (scopes ?s0 ! ?k) (scopes s' ! ?k)"
    using assms(1) by (simp add: grows_def)
  have new: "scopes ?s0 ! ?k =
      \<lparr>stype = t, block = n,
       upper = (case currentScopes s of [] \<Rightarrow> None | c # cs \<Rightarrow> Some c),
       variableScope = (if isVariableScopeType t then ?k
          else (case (case currentScopes s of [] \<Rightarrow> None | c # cs \<Rightarrow> Some c) of
                  None \<Rightarrow> ?k | Some c \<Rightarrow> variableScope (scopes s ! c))),
       isStrict = strictAtCreation opts t n m
          (map_option (\<lambda>c. scopes s ! c) (case currentScopes s of [] \<Rightarrow> None | c # cs \<Rightarrow> Some c)),
       variables = vs, references = [], through = [], dynamic = False, thisFound = False\<rparr>"
    by (simp add: nest_def Let_def)
  from kept new show "stype (scopes s' ! ?k) = t"
    by (simp add: scopeKept_def)
  from kept new show "upper (scopes s' ! ?k) = (case currentScopes s of [] \<Rightarrow> None | c # cs \<Rightarrow> Some c)"
    by (simp add: scopeKept_def)
  from kept new have blk: "block (scopes s' ! ?k) = n"
    by (simp add: scopeKept_def)
  have others: "block (scopes s' ! i) \<noteq> n" if "Suc ?k \<le> i" "i < length (scopes s')" for i
  proof -
    from assms(1) that have "scopeNew N (scopes s' ! i)" by (simp add: grows_def)
    with assms(2) show ?thesis by (auto simp: scopeNew_def)
  qed
  show "newScopesOf n s s' = [?k]"
    unfolding newScopesOf_def
  proof (rule filter_upt_single)
    show "?k \<le> ?k" by simp
    show "?k < length (scopes s')" using len by simp
    show "\<forall>i. ?k \<le> i \<and> i < length (scopes s') \<longrightarrow> (block (scopes s' ! i) = n \<longleftrightarrow> i = ?k)"
      using blk others by (metis Suc_leI le_neq_implies_less)
  qed
qed

lemma first_declarator_subset:
  "declarations l = Some (d # ds) \<Longrightarrow> set (subnodes l) \<subseteq> N \<Longrightarrow>
   nodesOf (opt (declaratorId d)) \<subseteq> N"
  using first_declarator_subnodes by blast

lemma forIn_rest:
  assumes "set (subnodes l) \<subseteq> N" and "set (subnodes r) \<subseteq> N" and "set (subnodes b) \<subseteq> N"
  shows "keeps N s0
       (andThen
       (case declarations l of
          Some ds \<Rightarrow>
            andThen (visit opts l s0)
              (\<lambda>s2. case ds of
                 [] \<Rightarrow> Inl TypeError
               | d # ds' \<Rightarrow>
                   visitPattern opts (declaratorId d) False (forInDeclarationCallback r) s2)
        | None \<Rightarrow> visitPattern opts (Some l) True (assignmentCallback n r True) s0)
       (\<lambda>s3. andThen (visit opts r s3)
          (\<lambda>s4. andThen (visit opts b s4) (\<lambda>s5. Inr (close n s5)))))"
  using grows_visit_all(1,3) [where opts = opts] assms
  by (intro keeps_intros; simp add: grows_push_simps first_declarator_subset del: visitPattern.simps)

lemma loop_rest:
  assumes "isLoop n" and "visit opts n s = Inr s'"
  shows "grows (nodesOf (children n))
           (if isLexicalDeclaration (loopHead n) then nestForScope opts n s else s) s'"
proof -
  let ?N = "nodesOf (children n)"
  let ?s0 = "if isLexicalDeclaration (loopHead n) then nestForScope opts n s else s"
  from assms(1) consider (plain) i t u b where "n = ForStatement i t u b"
    | (forin) l r b where "n = ForInStatement l r b \<or> n = ForOfStatement l r b"
    by (cases n) auto
  then show ?thesis
  proof cases
    case plain
    from assms(2) plain obtain s2 where
      "visit_list opts (children n) ?s0 = Inr s2" "s' = close n s2"
      by auto
    with grows_visit_list [of opts "children n" ?s0 s2 ?N] show ?thesis
      by (simp add: grows_pushes)
  next
    case forin
    have sub: "set (subnodes l) \<subseteq> ?N" "set (subnodes r) \<subseteq> ?N" "set (subnodes b) \<subseteq> ?N"
      using forin by auto
    have h: "loopHead n = Some l" using forin by auto
    let ?s1 = "if isLexicalDeclaration (Some l) then nestForScope opts n s else s"
    have "keeps ?N ?s1 (visitForIn opts n l r b s)"
      unfolding visitForIn.simps by (rule forIn_rest [OF sub])
    moreover have "visit opts n s = visitForIn opts n l r b s"
      using forin by auto
    ultimately show ?thesis
      using assms(2) by (simp add: keeps_def h)
  qed
qed

lemma forIn_rest2:
  assumes "set (subnodes l) \<subseteq> N" and "set (subnodes r) \<subseteq> N" and "set (subnodes b) \<subseteq> N"
    and "declarations l = Some ds"
  shows "keeps N s1
       (andThen
          (case ds of
             [] \<Rightarrow> Inl TypeError
           | d # ds' \<Rightarrow>
               visitPattern opts (declaratorId d) False (forInDeclarationCallback r) s1)
       (\<lambda>s3. andThen (visit opts r s3)
          (\<lambda>s4. andThen (visit opts b s4) (\<lambda>s5. Inr (close n s5)))))"
  using grows_visit_all(1,3) [where opts = opts] assms
  by (intro keeps_intros; simp add: grows_push_simps first_declarator_subset del: visitPattern.simps)

lemma loop_head_first:
  assumes "isLoop n" and "visit opts n s = Inr s'" and "loopHead n = Some l"
    and "declarations l = Some ds"
  shows "\<exists>s1. visit opts l (if isLexicalDeclaration (Some l) then nestForScope opts n s else s) = Inr s1
           \<and> grows (nodesOf (children n)) s1 s'"
proof -
  let ?N = "nodesOf (children n)"
  let ?s0 = "if isLexicalDeclaration (Some l) then nestForScope opts n s else s"
  from assms(1,3) consider (plain) t u b where "n = ForStatement (Some l) t u b"
    | (forin) r b where "n = ForInStatement l r b \<or> n = ForOfStatement l r b"
    by (cases n) auto
  then show ?thesis
  proof cases
    case plain
    from assms(2) plain obtain s1 s2 where
      s1: "visit opts l ?s0 = Inr s1" and s2: "visit_list opts (opt t @ opt u @ [b]) s1 = Inr s2"
      and s': "s' = close n s2"
      by auto
    have "nodesOf (opt t @ opt u @ [b]) \<subseteq> ?N" using plain by auto
    from grows_visit_list [OF s2 this] s' have "grows ?N s1 s'"
      by (simp add: grows_pushes)
    with s1 show ?thesis by blast
  next
    case forin
    have sub: "set (subnodes l) \<subseteq> ?N" "set (subnodes r) \<subseteq> ?N" "set (subnodes b) \<subseteq> ?N"
      using forin by auto
    have "visit opts n s = visitForIn opts n l r b s"
      using forin by auto
    with assms(2,4) obtain s1 where
      s1: "visit opts l ?s0 = Inr s1"
      and rest: "andThen
          (case ds of
             [] \<Rightarrow> Inl TypeError
           | d # ds' \<Rightarrow>
               visitPattern opts (declaratorId d) False (forInDeclarationCallback r) s1)
       (\<lambda>s3. andThen (visit opts r s3)
          (\<lambda>s4. andThen (visit opts b s4) (\<lambda>s5. Inr (close n s5)))) = Inr s'"
      by (auto simp: visitForIn.simps simp del: visitPattern.simps)
    from forIn_rest2 [OF sub assms(4), of s1 opts n] rest have "grows ?N s1 s'"
      by (simp add: keeps_def del: visitPattern.simps andThen_Inr)
    with s1 show ?thesis by blast
  qed
qed

lemma visit_forInPair: "visit scriptOptions forInPair globalOpen = Inr forInPairResult"
  by (simp add: forInPair_def forInPairLeft_def forInPairDeclarator_def globalOpen_def
      forInPairResult_def
      scriptOptions_def noScopes_def nest_defs nest_def Let_def visitForIn.simps
      visitVariableDeclaration.simps patternLeaves_def variableCallback_def
      forInDeclarationCallback_def currentScope_def referencing_def scope_define_def
      addReferences_def updScope_def close.simps isVariableScopeType_def)

lemma visit_letLoop: "visit es6Options letLoop globalOpen = Inr letLoopResult"
  by (simp add: letLoop_def letLoopLeft_def letLoopResult_def globalOpen_def es6Options_def
      scriptOptions_def noScopes_def nest_defs nest_def Let_def
      visitVariableDeclaration.simps patternLeaves_def variableCallback_def
      currentScope_def scope_define_def updScope_def close.simps closeScope_def
      isVariableScopeType_def declares_def)

lemma ownBindings_prefix_grows:
  assumes "grows N s s'" and "i < length (scopes s)"
  shows "prefix (ownBindings n (scopes s ! i)) (ownBindings n (scopes s' ! i))"
proof -
  from assms have "scopeKept N (scopes s ! i) (scopes s' ! i)" by (simp add: grows_def)
  then obtain vs where "variables (scopes s' ! i) = variables (scopes s ! i) @ vs"
    by (auto simp: scopeKept_def)
  then show ?thesis by (simp add: ownBindings_def)
qed

lemma loop_head_size:
  assumes "isLoop n" and "loopHead n = Some l"
  shows "n \<notin> set (subnodes l) \<and> set (subnodes l) \<subseteq> set (subnodes n)"
proof -
  from assms have "l \<in> set (children n)" by (cases n) auto
  from size_children [OF this] subnodes_child_subset [OF this] show ?thesis
    by (simp add: notin_subnodes)
qed

text \<open>
  Claim C8. After the visit of a for, for-in or for-of statement, the scopes created for
  the statement itself are one scope when its left side or init is a declaration of a
  kind other than \<open>var\<close>, and none otherwise; that one scope is created first, is a For
  scope and lies directly under the scope that was current. A \<open>var\<close> declaration in that
  position is visited in the state the loop started in, and its bindings go to the
  variable scope of the scope that was current and stay there. A declaration of another
  kind is visited with the For scope as the current scope: the For scope starts without
  a binding, receives the bindings of the declaration and keeps them, and it is still
  the current scope when the visit of the declaration returns. A for statement visits
  its init, test, update and body, in this order, from the state in which the For scope
  has been nested when there is one, and then closes the statement; when no scope that
  was open belongs to a node of the loop, the open scopes after the visit are those
  before it.
\<close>

theorem for_scope_iff_block_scoped_head:
  assumes "isLoop n" and "visit opts n s = Inr s'"
  shows "newScopesOf n s s' =
           (if isLexicalDeclaration (loopHead n) then [length (scopes s)] else [])
     \<and> (isLexicalDeclaration (loopHead n) \<longrightarrow>
          stype (scopes s' ! length (scopes s)) = For \<and>
          upper (scopes s' ! length (scopes s)) =
            (case currentScopes s of [] \<Rightarrow> None | c # cs \<Rightarrow> Some c))
     \<and> (\<forall>ds c. loopHead n = Some (VariableDeclaration ''var'' ds) \<longrightarrow>
          currentScope s = Inr c \<longrightarrow> variableScope (scopes s ! c) < length (scopes s) \<longrightarrow>
          (\<exists>s1. visit opts (VariableDeclaration ''var'' ds) s = Inr s1
             \<and> owned (VariableDeclaration ''var'' ds) (variableScope (scopes s ! c))
                 (declaredFrom (VariableDeclaration ''var'' ds) (Some ''var'') 0 ds) s s1
             \<and> grows (nodesOf (children n)) s1 s'))
     \<and> (\<forall>ds c. loopHead n = Some (VariableDeclaration ''var'' ds) \<longrightarrow>
          currentScope s = Inr c \<longrightarrow> variableScope (scopes s ! c) < length (scopes s) \<longrightarrow>
          prefix
            (ownBindings (VariableDeclaration ''var'' ds) (scopes s ! variableScope (scopes s ! c))
             @ declaredFrom (VariableDeclaration ''var'' ds) (Some ''var'') 0 ds)
            (ownBindings (VariableDeclaration ''var'' ds) (scopes s' ! variableScope (scopes s ! c))))
     \<and> (\<forall>k ds. loopHead n = Some (VariableDeclaration k ds) \<longrightarrow> k \<noteq> ''var'' \<longrightarrow>
          currentScope (nestForScope opts n s) = Inr (length (scopes s)) \<and>
          (\<exists>s1. visit opts (VariableDeclaration k ds) (nestForScope opts n s) = Inr s1
             \<and> owned (VariableDeclaration k ds) (length (scopes s))
                 (declaredFrom (VariableDeclaration k ds) (Some k) 0 ds) (nestForScope opts n s) s1
             \<and> grows (nodesOf (children n)) s1 s'
             \<and> (good (set (subnodes n)) s \<longrightarrow>
                  currentScopes s1 = length (scopes s) # currentScopes s)) \<and>
          variables (scopes (nestForScope opts n s) ! length (scopes s)) = [] \<and>
          prefix (declaredFrom (VariableDeclaration k ds) (Some k) 0 ds)
            (ownBindings (VariableDeclaration k ds) (scopes s' ! length (scopes s))))
     \<and> (\<forall>i t u b. n = ForStatement i t u b \<longrightarrow>
          visit opts n s =
            andThen
              (visit_list opts (opt i @ opt t @ opt u @ [b])
                 (if isLexicalDeclaration i then nestForScope opts n s else s))
              (\<lambda>s2. Inr (close n s2)))
     \<and> (good (set (subnodes n)) s \<longrightarrow> currentScopes s' = currentScopes s)"
proof (intro conjI impI allI)
  have notin: "n \<notin> nodesOf (children n)"
    by (rule notin_nodesOf_children) simp
  note g = loop_rest [OF assms]
  show "newScopesOf n s s' =
           (if isLexicalDeclaration (loopHead n) then [length (scopes s)] else [])"
  proof (cases "isLexicalDeclaration (loopHead n)")
    case True
    with g newScopesOf_nest(1) [of "nodesOf (children n)" opts For n False "[]" s s', OF _ notin]
    show ?thesis by (simp add: nestForScope_def)
  next
    case False
    with g newScopesOf_none [OF _ notin, of s s'] show ?thesis by simp
  qed
  {
    assume lex: "isLexicalDeclaration (loopHead n)"
    with g have g': "grows (nodesOf (children n)) (nest opts For n False [] s) s'"
      by (simp add: nestForScope_def)
    from newScopesOf_nest(2) [OF g' notin]
    show "stype (scopes s' ! length (scopes s)) = For" .
    from newScopesOf_nest(3) [OF g' notin]
    show "upper (scopes s' ! length (scopes s)) =
            (case currentScopes s of [] \<Rightarrow> None | c # cs \<Rightarrow> Some c)" .
  }
  {
    fix ds c
    assume h: "loopHead n = Some (VariableDeclaration ''var'' ds)"
      and c: "currentScope s = Inr c" and t: "variableScope (scopes s ! c) < length (scopes s)"
    let ?l = "VariableDeclaration ''var'' ds" and ?t = "variableScope (scopes s ! c)"
    from loop_head_first [OF assms h, of ds] obtain s1 where
      s1: "visit opts ?l s = Inr s1"
      and g1: "grows (nodesOf (children n)) s1 s'"
      by auto
    have "?l \<notin> nodesOf ds"
      by (rule notin_nodesOf) simp
    from owned_visitDeclarations [OF _ t subset_refl this, of opts 0 s1] s1 c
    have o: "owned ?l ?t (declaredFrom ?l (Some ''var'') 0 ds) s s1"
      by simp
    with s1 g1 show "\<exists>s1. visit opts ?l s = Inr s1
               \<and> owned ?l ?t (declaredFrom ?l (Some ''var'') 0 ds) s s1
               \<and> grows (nodesOf (children n)) s1 s'"
      by blast
    have t1: "?t < length (scopes s1)" using o t by (rule owned_length)
    from ownBindings_prefix_grows [OF g1 t1, of ?l] o
    show "prefix (ownBindings ?l (scopes s ! ?t) @ declaredFrom ?l (Some ''var'') 0 ds)
            (ownBindings ?l (scopes s' ! ?t))"
      by (simp add: owned_def)
  }
  {
    fix k ds
    assume h: "loopHead n = Some (VariableDeclaration k ds)" and k: "k \<noteq> ''var''"
    let ?l = "VariableDeclaration k ds" and ?s0 = "nestForScope opts n s"
    let ?f = "length (scopes s)"
    show c0: "currentScope ?s0 = Inr ?f" by (simp add: nestForScope_def)
    show v0: "variables (scopes ?s0 ! ?f) = []" by (simp add: nestForScope_def nest_def Let_def)
    have f0: "?f < length (scopes ?s0)" by (simp add: nestForScope_def)
    from loop_head_first [OF assms h, of ds] k obtain s1 where
      s1: "visit opts ?l ?s0 = Inr s1"
      and g1: "grows (nodesOf (children n)) s1 s'"
      by auto
    have "?l \<notin> nodesOf ds"
      by (rule notin_nodesOf) simp
    from owned_visitDeclarations [OF _ f0 subset_refl this, of opts 0 s1] s1 c0 k
    have o: "owned ?l ?f (declaredFrom ?l (Some k) 0 ds) ?s0 s1"
      by simp
    have lifo: "currentScopes s1 = ?f # currentScopes s" if gd: "good (set (subnodes n)) s"
    proof -
      note hs = loop_head_size [OF assms(1) h]
      have "good (set (subnodes ?l)) s" using gd hs by (auto elim: good_mono)
      then have "good (set (subnodes ?l)) ?s0"
        using hs by (auto simp: good_def nestForScope_def nest_def Let_def nth_append)
      from returns_visit [OF s1 this] show ?thesis
        by (simp add: linked_def nestForScope_def nest_def Let_def)
    qed
    with s1 o g1 show "\<exists>s1. visit opts ?l ?s0 = Inr s1
             \<and> owned ?l ?f (declaredFrom ?l (Some k) 0 ds) ?s0 s1
             \<and> grows (nodesOf (children n)) s1 s'
             \<and> (good (set (subnodes n)) s \<longrightarrow> currentScopes s1 = ?f # currentScopes s)"
      by blast
    have f1: "?f < length (scopes s1)" using o f0 by (rule owned_length)
    from ownBindings_prefix_grows [OF g1 f1, of ?l] o v0
    show "prefix (declaredFrom ?l (Some k) 0 ds) (ownBindings ?l (scopes s' ! ?f))"
      by (simp add: owned_def ownBindings_def)
  }
  {
    fix i t u b
    assume "n = ForStatement i t u b"
    then show "visit opts n s =
            andThen
              (visit_list opts (opt i @ opt t @ opt u @ [b])
                 (if isLexicalDeclaration i then nestForScope opts n s else s))
              (\<lambda>s2. Inr (close n s2))"
      by simp
  }
  {
    assume "good (set (subnodes n)) s"
    from returns_visit [OF assms(2) this] show "currentScopes s' = currentScopes s"
      by (simp add: linked_def)
  }
qed

text \<open>
  The hypotheses of C8 hold for \<open>for (var [a, b] in x) ;\<close> in a script, where no
  scope is created, and for \<open>for (let i;;) ;\<close> in an edition with block scopes, where
  the binding of \<open>i\<close> is in the For scope and the Global scope has none.
\<close>

theorem for_scope_iff_block_scoped_head_witness:
  "(isLoop forInPair \<and> visit scriptOptions forInPair globalOpen = Inr forInPairResult
   \<and> \<not> isLexicalDeclaration (loopHead forInPair)
   \<and> newScopesOf forInPair globalOpen forInPairResult = []
   \<and> loopHead forInPair = Some (VariableDeclaration ''var'' [forInPairDeclarator])
   \<and> currentScope globalOpen = Inr 0
   \<and> variableScope (scopes globalOpen ! 0) < length (scopes globalOpen)
   \<and> (\<exists>s1. visit scriptOptions (VariableDeclaration ''var'' [forInPairDeclarator]) globalOpen = Inr s1
        \<and> owned (VariableDeclaration ''var'' [forInPairDeclarator])
              (variableScope (scopes globalOpen ! 0))
              (declaredFrom (VariableDeclaration ''var'' [forInPairDeclarator]) (Some ''var'') 0
                 [forInPairDeclarator])
              globalOpen s1
        \<and> grows (nodesOf (children forInPair)) s1 forInPairResult))
   \<and> (isLoop letLoop \<and> visit es6Options letLoop globalOpen = Inr letLoopResult
   \<and> isLexicalDeclaration (loopHead letLoop)
   \<and> loopHead letLoop = Some (VariableDeclaration ''let'' [VariableDeclarator (Identifier ''i'') None])
   \<and> ''let'' \<noteq> ''var''
   \<and> good (set (subnodes letLoop)) globalOpen
   \<and> newScopesOf letLoop globalOpen letLoopResult = [1]
   \<and> stype (scopes letLoopResult ! 1) = For
   \<and> upper (scopes letLoopResult ! 1) = Some 0
   \<and> currentScope (nestForScope es6Options letLoop globalOpen) = Inr 1
   \<and> prefix
        [(Identifier ''i'',
          mkDefinition Variable (Identifier ''i'') (VariableDeclarator (Identifier ''i'') None)
            (Some letLoopLeft) (Some 0) (Some ''let''))]
        (ownBindings letLoopLeft (scopes letLoopResult ! 1))
   \<and> variables (scopes letLoopResult ! 0) = []
   \<and> currentScopes letLoopResult = currentScopes globalOpen)"
proof
  have l: "isLoop forInPair" by (simp add: forInPair_def)
  have h: "loopHead forInPair = Some (VariableDeclaration ''var'' [forInPairDeclarator])"
    by (simp add: forInPair_def forInPairLeft_def)
  have c: "currentScope globalOpen = Inr 0"
    by (simp add: globalOpen_def noScopes_def nest_defs)
  have t: "variableScope (scopes globalOpen ! 0) < length (scopes globalOpen)"
    by (simp add: globalOpen_def noScopes_def nest_defs nest_def Let_def isVariableScopeType_def)
  from for_scope_iff_block_scoped_head [OF l visit_forInPair] l visit_forInPair h c t
  show "isLoop forInPair \<and> visit scriptOptions forInPair globalOpen = Inr forInPairResult
   \<and> \<not> isLexicalDeclaration (loopHead forInPair)
   \<and> newScopesOf forInPair globalOpen forInPairResult = []
   \<and> loopHead forInPair = Some (VariableDeclaration ''var'' [forInPairDeclarator])
   \<and> currentScope globalOpen = Inr 0
   \<and> variableScope (scopes globalOpen ! 0) < length (scopes globalOpen)
   \<and> (\<exists>s1. visit scriptOptions (VariableDeclaration ''var'' [forInPairDeclarator]) globalOpen = Inr s1
        \<and> owned (VariableDeclaration ''var'' [forInPairDeclarator])
              (variableScope (scopes globalOpen ! 0))
              (declaredFrom (VariableDeclaration ''var'' [forInPairDeclarator]) (Some ''var'') 0
                 [forInPairDeclarator])
              globalOpen s1
        \<and> grows (nodesOf (children forInPair)) s1 forInPairResult)"
    by simp
next
  let ?d = "VariableDeclarator (Identifier ''i'') None"
  have l: "isLoop letLoop" by (simp add: letLoop_def)
  have h: "loopHead letLoop = Some (VariableDeclaration ''let'' [?d])"
    by (simp add: letLoop_def letLoopLeft_def)
  have x: "isLexicalDeclaration (loopHead letLoop)" by (simp add: h)
  have k: "''let'' \<noteq> ''var''" by simp
  have len: "length (scopes globalOpen) = 1" "currentScopes globalOpen = [0]"
    by (simp_all add: globalOpen_def noScopes_def nest_defs nest_def Let_def)
  have g: "good (set (subnodes letLoop)) globalOpen"
    by (simp add: good_def letLoop_def letLoopLeft_def globalOpen_def noScopes_def nest_defs
        nest_def Let_def set_subnodes)
  have v0: "variables (scopes letLoopResult ! 0) = []"
    by (simp add: letLoopResult_def globalOpen_def noScopes_def nest_defs nest_def Let_def
        scope_define_def updScope_def isVariableScopeType_def)
  note th = for_scope_iff_block_scoped_head [OF l visit_letLoop]
  have a: "newScopesOf letLoop globalOpen letLoopResult = [1]"
    "stype (scopes letLoopResult ! 1) = For" "upper (scopes letLoopResult ! 1) = Some 0"
    using th x len by simp_all
  from th h k have "currentScope (nestForScope es6Options letLoop globalOpen) = Inr (length (scopes globalOpen))
    \<and> prefix (declaredFrom (VariableDeclaration ''let'' [?d]) (Some ''let'') 0 [?d])
        (ownBindings (VariableDeclaration ''let'' [?d]) (scopes letLoopResult ! length (scopes globalOpen)))"
    by blast
  then have b: "currentScope (nestForScope es6Options letLoop globalOpen) = Inr 1"
    "prefix
        [(Identifier ''i'',
          mkDefinition Variable (Identifier ''i'') ?d (Some letLoopLeft) (Some 0) (Some ''let''))]
        (ownBindings letLoopLeft (scopes letLoopResult ! 1))"
    by (simp_all add: len declaratorBindings_def patternLeaves_def letLoopLeft_def)
  from th g have e: "currentScopes letLoopResult = currentScopes globalOpen" by blast
  from l visit_letLoop x h k g a b v0 e
  show "isLoop letLoop \<and> visit es6Options letLoop globalOpen = Inr letLoopResult
   \<and> isLexicalDeclaration (loopHead letLoop)
   \<and> loopHead letLoop = Some (VariableDeclaration ''let'' [?d])
   \<and> ''let'' \<noteq> ''var''
   \<and> good (set (subnodes letLoop)) globalOpen
   \<and> newScopesOf letLoop globalOpen letLoopResult = [1]
   \<and> stype (scopes letLoopResult ! 1) = For
   \<and> upper (scopes letLoopResult ! 1) = Some 0
   \<and> currentScope (nestForScope es6Options letLoop globalOpen) = Inr 1
   \<and> prefix
        [(Identifier ''i'',
          mkDefinition Variable (Identifier ''i'') ?d (Some letLoopLeft) (Some 0) (Some ''let''))]
        (ownBindings letLoopLeft (scopes letLoopResult ! 1))
   \<and> variables (scopes letLoopResult ! 0) = []
   \<and> currentScopes letLoopResult = currentScopes globalOpen"
    by (intro conjI)
qed

section \<open>The body block of a function\<close>

text \<open>The function nodes, with their parameters and their body.\<close>

fun isFunctionNode :: "node \<Rightarrow> bool" where
  "isFunctionNode (FunctionDeclaration i ps b) = True"
| "isFunctionNode (FunctionExpression i ps b) = True"
| "isFunctionNode (ArrowFunctionExpression ps b) = True"
| "isFunctionNode n = False"

fun functionParams :: "node \<Rightarrow> node list" where
  "functionParams (FunctionDeclaration i ps b) = ps"
| "functionParams (FunctionExpression i ps b) = ps"
| "functionParams (ArrowFunctionExpression ps b) = ps"
| "functionParams n = []"

fun functionBody :: "node \<Rightarrow> node option" where
  "functionBody (FunctionDeclaration i ps b) = b"
| "functionBody (FunctionExpression i ps b) = b"
| "functionBody (ArrowFunctionExpression ps b) = b"
| "functionBody n = None"

text \<open>
  The declaration \<open>function f(p) { { } }\<close>, its body, and the state after its visit
  in the Global scope for an edition with block scopes: the name is defined in the
  Global scope, the Function scope has the parameter, and the only Block scope is that
  of the inner block.
\<close>

definition blockBody :: node where
  "blockBody = BlockStatement [BlockStatement []]"

definition blockBodied :: node where
  "blockBodied = FunctionDeclaration (Some (Identifier ''f'')) [Identifier ''p''] (Some blockBody)"

definition blockBodiedResult :: Referencer where
  "blockBodiedResult =
     (nest es6Options Block (BlockStatement []) False []
        (scope_define 1 (Identifier ''p'') (ParameterDefinition (Identifier ''p'') blockBodied 0 False)
           (nest es6Options Function blockBodied False []
              (scope_define 0 (Identifier ''f'')
                 (mkDefinition FunctionName (Identifier ''f'') blockBodied None None None)
                 globalOpen))))
     \<lparr>currentScopes := [0]\<rparr>"

lemma visit_function:
  "isFunctionNode n \<Longrightarrow> visit opts n s = visitFunction opts n (functionParams n) (functionBody n) s"
  by (cases n) simp_all

lemma function_nodes:
  assumes "isFunctionNode n"
  shows "n \<notin> nodesOf (functionParams n)" and "n \<notin> nodesOf (opt (functionBody n))"
  using assms by (cases n; auto intro!: notin_nodesOf notin_nodesOf_opt)+

lemma function_block_rest:
  assumes "isBlockStatement bd" and "n \<in> N" and "nodesOf ps \<subseteq> N" and "nodesOf (children bd) \<subseteq> N"
  shows "keeps N s (visitFunction opts n ps (Some bd) s)"
  using grows_visit_all(2,4) [where opts = opts] assms
  by (subst visitFunction.simps, intro keeps_intros; simp add: grows_push_simps)

lemma currentScopes_nest [simp]:
  "currentScopes (nest opts t n m vs s) = length (scopes s) # currentScopes s"
  by (simp add: nest_def Let_def)

lemma nth_nest_old [simp]: "i < length (scopes s) \<Longrightarrow> scopes (nest opts t n m vs s) ! i = scopes s ! i"
  by (simp add: nest_def Let_def nth_append)

lemma block_nest_new [simp]:
  "i = length (scopes s) \<Longrightarrow> block (scopes (nest opts t n m vs s) ! i) = n"
  by (simp add: nest_def Let_def)

lemma upper_nest_new:
  "i = length (scopes s) \<Longrightarrow> upper (scopes (nest opts t n m vs s) ! i) =
     (case currentScopes s of [] \<Rightarrow> None | c # cs \<Rightarrow> Some c)"
  by (simp add: nest_def Let_def)

lemma variables_nest_new [simp]:
  "i = length (scopes s) \<Longrightarrow> variables (scopes (nest opts t n m vs s) ! i) = vs"
  by (simp add: nest_def Let_def)

lemma good_nest:
  "good N s \<Longrightarrow> n \<notin> N \<Longrightarrow> good N (nest opts t n m vs s)"
  by (auto simp: good_def nth_append nest_def Let_def)

lemma good_updScope:
  "(\<And>a. block (f a) = block a) \<Longrightarrow> good N (updScope i f s) = good N s"
  by (simp add: good_def updScope_def nth_update_field)

lemma good_scope_define [simp]: "good N (scope_define i p d s) = good N s"
  by (simp add: scope_define_def good_updScope)

lemma length_scope_define [simp]: "length (scopes (scope_define i p d s)) = length (scopes s)"
  by (simp add: scope_define_def)

lemma grows_stype:
  "grows N s s' \<Longrightarrow> i < length (scopes s) \<Longrightarrow> stype (scopes s' ! i) = stype (scopes s ! i)"
  by (simp add: grows_def scopeKept_def)

lemma linked_current:
  "linked None s s' \<Longrightarrow> currentScope s' = currentScope s"
  by (simp add: linked_def currentScope_def)

lemma linked_block:
  "linked m s s' \<Longrightarrow> i < length (scopes s) \<Longrightarrow> block (scopes s' ! i) = block (scopes s ! i)"
  by (simp add: linked_def blockKept_def)


lemma nestFunctionScopes_result:
  assumes "nestFunctionScopes opts n s = Inr s3" and "good N s" and "n \<notin> N"
  shows "good N s3"
    and "\<exists>f. currentScope s3 = Inr f \<and> f < length (scopes s3) \<and> length (scopes s) \<le> f
           \<and> stype (scopes s3 ! f) = Function \<and> block (scopes s3 ! f) = n
           \<and> variables (scopes s3 ! f) = []"
  using assms
  by (auto simp: nestFunctionScopes_def Let_def nest_defs good_nest split: if_splits option.splits)

lemma visit_blockBodied: "visit es6Options blockBodied globalOpen = Inr blockBodiedResult"
  by (simp add: blockBodied_def blockBody_def blockBodiedResult_def globalOpen_def es6Options_def
      scriptOptions_def noScopes_def nest_defs nest_def Let_def visitFunction.simps
      nestFunctionScopes_def patternLeaves_def parameterCallback_def currentScope_def
      scope_define_def updScope_def close.simps closeScope_def isVariableScopeType_def
      declares_def)



section \<open>Classes\<close>

text \<open>The class nodes, with their superclass and their body.\<close>

fun isClassNode :: "node \<Rightarrow> bool" where
  "isClassNode (ClassDeclaration i sc b) = True"
| "isClassNode (ClassExpression i sc b) = True"
| "isClassNode n = False"

fun superClass :: "node \<Rightarrow> node option" where
  "superClass (ClassDeclaration i sc b) = sc"
| "superClass (ClassExpression i sc b) = sc"
| "superClass n = None"

fun classBody :: "node \<Rightarrow> node option" where
  "classBody (ClassDeclaration i sc b) = Some b"
| "classBody (ClassExpression i sc b) = Some b"
| "classBody n = None"

text \<open>The binding of the name of a class to the class, when the class has a name.\<close>

definition classNameBindings :: "node \<Rightarrow> (node \<times> Definition) list" where
  "classNameBindings n =
     map (\<lambda>nm. (nm, mkDefinition ClassName nm n None None None)) (opt (nodeId n))"

text \<open>
  The declaration \<open>class A extends B { }\<close> and the state after its visit in the Global
  scope of a script.
\<close>

definition derivedClass :: node where
  "derivedClass =
     ClassDeclaration (Some (Identifier ''A'')) (Some (Identifier ''B'')) (OtherNode ''ClassBody'' [])"

definition derivedClassResult :: Referencer where
  "derivedClassResult =
     (nest scriptOptions Class derivedClass False
        [(Identifier ''A'', mkDefinition ClassName (Identifier ''A'') derivedClass None None None)]
        (referencing 0 (mkReference (Identifier ''B'') READ None None False False)
           (scope_define 0 (Identifier ''A'')
              (mkDefinition ClassName (Identifier ''A'') derivedClass None None None)
              globalOpen)))
     \<lparr>currentScopes := [0]\<rparr>"

lemma visit_class:
  "isClassNode n \<Longrightarrow> classBody n = Some b \<Longrightarrow>
   visit opts n s = visitClass opts n (superClass n) b s"
  by (cases n) simp_all

lemma class_nodes:
  assumes "isClassNode n" and "classBody n = Some b"
  shows "n \<notin> nodesOf (opt (superClass n))" and "n \<notin> set (subnodes b)"
  using assms by (cases n; auto intro!: notin_nodesOf_opt notin_subnodes)+

lemma define_after_nest:
  "i = length (scopes s) \<Longrightarrow>
   scope_define i p d (nest opts t n m vs s) = nest opts t n m (vs @ [(p, d)]) s"
  by (simp add: scope_define_def updScope_def nest_def Let_def)

lemma nestNamedClassScope_nest:
  "nestNamedClassScope opts n s = Inr (nest opts Class n False (classNameBindings n) s)"
  by (cases "nodeId n") (simp_all add: nestNamedClassScope_def nest_defs Let_def
      classNameBindings_def define_after_nest)

lemma defineClassDeclaration_result:
  assumes "defineClassDeclaration n s = Inr s1" and "currentScope s = Inr c" and "c < length (scopes s)"
  shows "owned n c (if isClassDeclaration n then classNameBindings n else []) s s1"
    and "linked None s s1" and "length (scopes s1) = length (scopes s)"
  using assms
  by (auto simp: defineClassDeclaration_def classNameBindings_def owned_scope_define defOwner_def
      mkDefinition_def split: if_splits option.splits)

lemma newScopesOf_split:
  assumes "length (scopes s) \<le> length (scopes s2)" and "length (scopes s2) \<le> length (scopes s')"
  shows "newScopesOf n s s' =
     filter (\<lambda>k. block (scopes s' ! k) = n) [length (scopes s)..<length (scopes s2)]
     @ newScopesOf n s2 s'"
proof -
  have "[length (scopes s)..<length (scopes s')] =
      [length (scopes s)..<length (scopes s2)] @ [length (scopes s2)..<length (scopes s')]"
    using assms by (metis le_add_diff_inverse upt_add_eq_append)
  then show ?thesis by (simp add: newScopesOf_def)
qed

lemma newScopesOf_mid:
  assumes "grows N s s2" and "grows N (nest opts t n m vs s2) s'" and "n \<notin> N"
  shows "newScopesOf n s s' = [length (scopes s2)]"
proof -
  have l1: "length (scopes s) \<le> length (scopes s2)" using assms(1) by (simp add: grows_def)
  have l2: "Suc (length (scopes s2)) \<le> length (scopes s')" using assms(2) by (simp add: grows_def)
  have "block (scopes s' ! k) \<noteq> n" if "length (scopes s) \<le> k" "k < length (scopes s2)" for k
  proof -
    from assms(1) that have "scopeNew N (scopes s2 ! k)" by (simp add: grows_def)
    then have "block (scopes s2 ! k) \<in> N" by (simp add: scopeNew_def)
    moreover from assms(2) have
      "\<forall>i < Suc (length (scopes s2)). scopeKept N (scopes (nest opts t n m vs s2) ! i) (scopes s' ! i)"
      by (simp add: grows_def)
    with that have "scopeKept N (scopes s2 ! k) (scopes s' ! k)"
      using nth_nest_old [of k s2 opts t n m vs] by (metis less_SucI)
    ultimately show ?thesis using assms(3) by (auto simp: scopeKept_def)
  qed
  then have "filter (\<lambda>k. block (scopes s' ! k) = n) [length (scopes s)..<length (scopes s2)] = []"
    by (auto simp: filter_empty_conv)
  with newScopesOf_split [OF l1, of s' n] l2 newScopesOf_nest(1) [OF assms(2,3)]
  show ?thesis by simp
qed

lemma ownBindings_grows:
  "grows N s s' \<Longrightarrow> n \<notin> N \<Longrightarrow> i < length (scopes s) \<Longrightarrow>
   ownBindings n (scopes s' ! i) = ownBindings n (scopes s ! i)"
  using owned_grows [of N s s' n i] by (simp add: owned_def)

lemma visit_derivedClass: "visit scriptOptions derivedClass globalOpen = Inr derivedClassResult"
  by (simp add: derivedClass_def derivedClassResult_def globalOpen_def scriptOptions_def noScopes_def
      nest_defs nest_def Let_def visitClass.simps defineClassDeclaration_def
      nestNamedClassScope_def currentScope_def referencing_def scope_define_def updScope_def
      close.simps closeScope_def isVariableScopeType_def declares_def)



section \<open>Functions\<close>

text \<open>
  A named function expression gets a FunctionExpressionName scope; the Function scope of
  a function visited in the state \<open>s\<close> is then the second scope created, and the first
  one otherwise.
\<close>

definition isNamedFunctionExpression :: "node \<Rightarrow> bool" where
  "isNamedFunctionExpression n \<longleftrightarrow> isFunctionExpression n \<and> nodeId n \<noteq> None"

definition functionScopeIndex :: "node \<Rightarrow> Referencer \<Rightarrow> nat" where
  "functionScopeIndex n s =
     (if isNamedFunctionExpression n then Suc (length (scopes s)) else length (scopes s))"

text \<open>
  The binding of the name of a function to the function, when the function has a name,
  and the Parameter bindings of the parameters from position \<open>i\<close> on: one for every
  leaf name of a parameter, with the position of the parameter and the rest flag.
\<close>

definition functionNameBindings :: "node \<Rightarrow> (node \<times> Definition) list" where
  "functionNameBindings n =
     map (\<lambda>nm. (nm, mkDefinition FunctionName nm n None None None)) (opt (nodeId n))"

fun parameterBindings :: "node \<Rightarrow> nat \<Rightarrow> node list \<Rightarrow> (node \<times> Definition) list" where
  "parameterBindings n i [] = []"
| "parameterBindings n i (p # ps) =
     map (\<lambda>leaf. (fst leaf, ParameterDefinition (fst leaf) n i (rest (snd leaf)))) (patternLeaves p)
     @ parameterBindings n (Suc i) ps"

text \<open>\<open>newBlocks N s s'\<close>: the scopes created from \<open>s\<close> to \<open>s'\<close> have their block in \<open>N\<close>.\<close>

definition newBlocks :: "node set \<Rightarrow> Referencer \<Rightarrow> Referencer \<Rightarrow> bool" where
  "newBlocks N s s' \<longleftrightarrow>
     (\<forall>i. length (scopes s) \<le> i \<and> i < length (scopes s') \<longrightarrow> block (scopes s' ! i) \<in> N)"

text \<open>
  The expression \<open>function f(p, q) { }\<close> and the state after its visit in the Global
  scope of a script.
\<close>

definition namedExpression :: node where
  "namedExpression =
     FunctionExpression (Some (Identifier ''f'')) [Identifier ''p'', Identifier ''q'']
       (Some (BlockStatement []))"

definition namedExpressionResult :: Referencer where
  "namedExpressionResult =
     (scope_define 2 (Identifier ''q'') (ParameterDefinition (Identifier ''q'') namedExpression 1 False)
        (scope_define 2 (Identifier ''p'')
           (ParameterDefinition (Identifier ''p'') namedExpression 0 False)
           (nest scriptOptions Function namedExpression False []
              (nest scriptOptions FunctionExpressionName namedExpression False
                 [(Identifier ''f'',
                   mkDefinition FunctionName (Identifier ''f'') namedExpression None None None)]
                 globalOpen))))
     \<lparr>currentScopes := [0]\<rparr>"

lemma newBlocks_trans:
  "newBlocks N s s1 \<Longrightarrow> newBlocks N s1 s2 \<Longrightarrow> blockKept s1 s2 \<Longrightarrow> newBlocks N s s2"
  unfolding newBlocks_def blockKept_def by (metis not_le_imp_less)

lemma newBlocks_grows: "grows N s s' \<Longrightarrow> newBlocks N s s'"
  by (simp add: newBlocks_def grows_def scopeNew_def)

lemma newBlocks_same: "length (scopes s') = length (scopes s) \<Longrightarrow> newBlocks N s s'"
  by (auto simp: newBlocks_def)

lemma length_referencingDefaultValue:
  "referencingDefaultValue p as g ini s = Inr s' \<Longrightarrow> length (scopes s') = length (scopes s)"
proof (induction as arbitrary: s)
  case Nil
  then show ?case by simp
next
  case (Cons a as)
  from Cons.prems obtain c where c: "currentScope s = Inr c" by auto
  with Cons.prems show ?case
    by (auto simp: referencingDefaultValue_adds referencing_addReferences addReferences_append
        addReferences_def)
qed

lemma defOwner_Parameter [simp]: "defOwner (ParameterDefinition p n i r) = n"
  by (simp add: defOwner_def ParameterDefinition_def)

lemma parameterCallback_facts:
  assumes "parameterCallback n i p info s = Inr s'" and "currentScope s = Inr f"
    and "f < length (scopes s)"
  shows "owned n f [(p, ParameterDefinition p n i (rest info))] s s'"
    and "length (scopes s') = length (scopes s)"
proof -
  let ?s0 = "scope_define f p (ParameterDefinition p n i (rest info)) s"
  from assms(1,2) have r: "referencingDefaultValue p (assignments info) None True ?s0 = Inr s'"
    by (simp add: parameterCallback_def)
  have a: "owned n f [(p, ParameterDefinition p n i (rest info))] s ?s0"
    using assms(3) by (simp add: owned_scope_define)
  from owned_step [OF a owned_referencingDefaultValue [OF r] assms(3)]
  show "owned n f [(p, ParameterDefinition p n i (rest info))] s s'" .
  from length_referencingDefaultValue [OF r] show "length (scopes s') = length (scopes s)"
    by simp
qed

lemma eachLeaf_parameterCallback:
  "eachLeaf (parameterCallback n i) ls s = Inr s' \<Longrightarrow> currentScope s = Inr f \<Longrightarrow>
   f < length (scopes s) \<Longrightarrow>
   owned n f (map (\<lambda>leaf. (fst leaf, ParameterDefinition (fst leaf) n i (rest (snd leaf)))) ls) s s'
   \<and> length (scopes s') = length (scopes s)"
proof (induction ls arbitrary: s)
  case Nil
  then show ?case by simp
next
  case (Cons l ls)
  obtain p info where l: "l = (p, info)" by (cases l)
  from Cons.prems(1) l obtain s1 where
    s1: "parameterCallback n i p info s = Inr s1"
      "eachLeaf (parameterCallback n i) ls s1 = Inr s'"
    by auto
  note a = parameterCallback_facts [OF s1(1) Cons.prems(2,3)]
  have "linked None s s1"
    using s1(1) callbackInert_simps(1) [of n i] by (auto simp: callbackInert_def)
  then have c1: "currentScope s1 = Inr f" using Cons.prems(2) by (simp add: linked_current)
  have f1: "f < length (scopes s1)" using a(2) Cons.prems(3) by simp
  from Cons.IH [OF s1(2) c1 f1] a owned_trans [OF a(1) _ Cons.prems(3)] show ?case
    by (simp add: l)
qed

lemma visitParams_facts:
  "visitParams opts n ps i s = Inr s' \<Longrightarrow> currentScope s = Inr f \<Longrightarrow> f < length (scopes s) \<Longrightarrow>
   good (nodesOf ps) s \<Longrightarrow> n \<notin> nodesOf ps \<Longrightarrow> nodesOf ps \<subseteq> N \<Longrightarrow> n \<notin> N \<Longrightarrow>
   owned n f (parameterBindings n i ps) s s' \<and> linked None s s' \<and> newBlocks N s s'"
proof (induction ps arbitrary: i s)
  case Nil
  then show ?case by (simp add: newBlocks_same)
next
  case (Cons p ps)
  from Cons.prems(1) obtain s1 s2 where
    s1: "eachLeaf (parameterCallback n i) (patternLeaves p) s = Inr s1"
    and s2: "visit_list opts (rightHandNodes p) s1 = Inr s2"
    and s': "visitParams opts n ps (Suc i) s2 = Inr s'"
    by auto
  have sub: "set (subnodes p) \<subseteq> N" "nodesOf ps \<subseteq> N"
    using Cons.prems(6) by simp_all
  have rhs: "nodesOf (rightHandNodes p) \<subseteq> set (subnodes p)"
    by (rule nodesOf_rhs_subset) simp
  note a = eachLeaf_parameterCallback [OF s1 Cons.prems(2,3)]
  have l1: "linked None s s1"
    using linked_eachLeaf [OF s1 callbackInert_simps(1) linked_refl] .
  have g1: "good (nodesOf (p # ps)) s1"
    using Cons.prems(4) l1 by (rule good_linked) simp
  then have g1': "good (nodesOf (rightHandNodes p)) s1"
    using rhs by (auto elim: good_mono)
  from returns_visit_list [OF s2 g1'] have l2: "linked None s1 s2" .
  have gr: "grows N s1 s2"
    by (rule grows_visit_list [OF s2]) (use rhs sub in auto)
  have f1: "f < length (scopes s1)" using a Cons.prems(3) by simp
  have o2: "owned n f [] s1 s2" using owned_grows [OF gr Cons.prems(7) f1] .
  have o02: "owned n f (map (\<lambda>leaf. (fst leaf, ParameterDefinition (fst leaf) n i (rest (snd leaf))))
      (patternLeaves p)) s s2"
    using owned_step [OF _ o2 Cons.prems(3)] a by simp
  have l02: "linked None s s2" using l1 l2 by (rule linked_step)
  have nb02: "newBlocks N s s2"
    using newBlocks_trans [OF newBlocks_same newBlocks_grows [OF gr]] a l2
    by (simp add: linked_def)
  have c2: "currentScope s2 = Inr f" using linked_current [OF l02] Cons.prems(2) by simp
  have f2: "f < length (scopes s2)" using owned_length [OF o02 Cons.prems(3)] .
  have g2: "good (nodesOf ps) s2"
    using good_linked [OF g1 l2] by (auto elim: good_mono)
  have np: "n \<notin> nodesOf ps" using Cons.prems(5) by simp
  from Cons.IH [OF s' c2 f2 g2 np sub(2) Cons.prems(7)]
  have r: "owned n f (parameterBindings n (Suc i) ps) s2 s'" "linked None s2 s'" "newBlocks N s2 s'"
    by simp_all
  have "owned n f (parameterBindings n i (p # ps)) s s'"
    using owned_trans [OF o02 r(1) Cons.prems(3)] by simp
  moreover have "linked None s s'" using l02 r(2) by (rule linked_step)
  moreover have "newBlocks N s s'"
    using newBlocks_trans [OF nb02 r(3)] r(2) by (simp add: linked_def)
  ultimately show ?case by simp
qed

lemma grows_upper:
  "grows N s s' \<Longrightarrow> i < length (scopes s) \<Longrightarrow> upper (scopes s' ! i) = upper (scopes s ! i)"
  by (simp add: grows_def scopeKept_def)

lemma grows_block:
  "grows N s s' \<Longrightarrow> i < length (scopes s) \<Longrightarrow> block (scopes s' ! i) = block (scopes s ! i)"
  by (simp add: grows_def scopeKept_def)

lemma ownBindings_own:
  "\<forall>pd \<in> set vs. defOwner (snd pd) = n \<Longrightarrow> variables sc = vs \<Longrightarrow> ownBindings n sc = vs"
  by (simp add: ownBindings_def)

lemma functionNameBindings_own [simp]: "\<forall>pd \<in> set (functionNameBindings n). defOwner (snd pd) = n"
  by (cases "nodeId n") (simp_all add: functionNameBindings_def defOwner_def mkDefinition_def)

lemma ownBindings_define_other:
  "i \<noteq> c \<Longrightarrow> ownBindings n (scopes (scope_define c p d s) ! i) = ownBindings n (scopes s ! i)"
  by (simp add: scope_define_def updScope_def)

lemma ownBindings_define_same:
  "c < length (scopes s) \<Longrightarrow> defOwner d = n \<Longrightarrow>
   ownBindings n (scopes (scope_define c p d s) ! c) = ownBindings n (scopes s ! c) @ [(p, d)]"
  by (simp add: scope_define_def updScope_def ownBindings_def)

lemma currentScope_scope_define [simp]: "currentScope (scope_define i p d s) = currentScope s"
  by (simp add: scope_define_def)

lemma scope_define_fields [simp]:
  "currentScopes (scope_define i p d s) = currentScopes s"
  "isInnerMethodDefinition (scope_define i p d s) = isInnerMethodDefinition s"
  by (simp_all add: scope_define_def updScope_def)

lemma nest_fields [simp]:
  "isInnerMethodDefinition (nest opts t n m vs s) = isInnerMethodDefinition s"
  by (simp add: nest_def Let_def)

lemma nestFunctionScopes_facts:
  assumes "nestFunctionScopes opts n s = Inr s3" and "currentScope s = Inr c"
    and "c < length (scopes s)"
  shows "length (scopes s3) = Suc (functionScopeIndex n s)"
    and "currentScope s3 = Inr (functionScopeIndex n s)"
    and "\<forall>i. length (scopes s) \<le> i \<and> i < length (scopes s3) \<longrightarrow> block (scopes s3 ! i) = n"
    and "ownBindings n (scopes s3 ! c) =
           ownBindings n (scopes s ! c) @ (if isFunctionDeclaration n then functionNameBindings n else [])"
    and "stype (scopes s3 ! functionScopeIndex n s) = Function"
    and "upper (scopes s3 ! functionScopeIndex n s) =
           Some (if isNamedFunctionExpression n then length (scopes s) else c)"
    and "variables (scopes s3 ! functionScopeIndex n s) = []"
    and "isNamedFunctionExpression n \<Longrightarrow>
           stype (scopes s3 ! length (scopes s)) = FunctionExpressionName \<and>
           upper (scopes s3 ! length (scopes s)) = Some c \<and>
           variables (scopes s3 ! length (scopes s)) = functionNameBindings n"
    and "good N s \<Longrightarrow> n \<notin> N \<Longrightarrow> good N s3"
proof -
  from assms(2) obtain cs where cs: "currentScopes s = c # cs"
    by (auto simp: currentScope_def split: list.splits)
  consider (decl) nm where "isFunctionDeclaration n" "nodeId n = Some nm"
    | (expr) "isNamedFunctionExpression n" "\<not> isFunctionDeclaration n"
    | (plain) "\<not> isNamedFunctionExpression n" "\<not> (isFunctionDeclaration n \<and> nodeId n \<noteq> None)"
    by (cases n) (auto simp: isNamedFunctionExpression_def)
  then have "length (scopes s3) = Suc (functionScopeIndex n s)
    \<and> currentScope s3 = Inr (functionScopeIndex n s)
    \<and> (\<forall>i. length (scopes s) \<le> i \<and> i < length (scopes s3) \<longrightarrow> block (scopes s3 ! i) = n)
    \<and> ownBindings n (scopes s3 ! c) =
           ownBindings n (scopes s ! c) @ (if isFunctionDeclaration n then functionNameBindings n else [])
    \<and> stype (scopes s3 ! functionScopeIndex n s) = Function
    \<and> upper (scopes s3 ! functionScopeIndex n s) =
           Some (if isNamedFunctionExpression n then length (scopes s) else c)
    \<and> variables (scopes s3 ! functionScopeIndex n s) = []
    \<and> (isNamedFunctionExpression n \<longrightarrow>
           stype (scopes s3 ! length (scopes s)) = FunctionExpressionName \<and>
           upper (scopes s3 ! length (scopes s)) = Some c \<and>
           variables (scopes s3 ! length (scopes s)) = functionNameBindings n)
    \<and> (good N s \<longrightarrow> n \<notin> N \<longrightarrow> good N s3)"
  proof cases
    case decl
    then have nfe: "\<not> isNamedFunctionExpression n"
      by (cases n) (auto simp: isNamedFunctionExpression_def)
    let ?d = "mkDefinition FunctionName nm n None None None"
    from assms(1,2) decl nfe have s3: "s3 = nest opts Function n (isInnerMethodDefinition s) []
        (scope_define c nm ?d s)"
      by (auto simp: nestFunctionScopes_def Let_def nest_defs isNamedFunctionExpression_def)
    have own: "defOwner ?d = n" by (simp add: defOwner_def mkDefinition_def)
    show ?thesis
      using assms(3) decl nfe cs own
      by (auto simp: s3 functionScopeIndex_def functionNameBindings_def upper_nest_new
          ownBindings_define_same less_Suc_eq_le good_nest)
  next
    case expr
    from assms(1,2) expr have s3: "s3 = nest opts Function n (isInnerMethodDefinition s) []
        (nest opts FunctionExpressionName n False (functionNameBindings n) s)"
      by (auto simp: nestFunctionScopes_def Let_def nest_defs isNamedFunctionExpression_def
          functionNameBindings_def)
    show ?thesis
      using assms(3) expr cs
      by (auto simp: s3 functionScopeIndex_def upper_nest_new less_Suc_eq_le good_nest
          le_Suc_eq)
  next
    case plain
    from assms(1,2) plain have s3: "s3 = nest opts Function n (isInnerMethodDefinition s) [] s"
      by (auto simp: nestFunctionScopes_def Let_def nest_defs isNamedFunctionExpression_def
          split: option.splits)
    show ?thesis
      using assms(3) plain cs
      by (auto simp: s3 functionScopeIndex_def upper_nest_new less_Suc_eq_le good_nest
          functionNameBindings_def)
  qed
  then show "length (scopes s3) = Suc (functionScopeIndex n s)"
    and "currentScope s3 = Inr (functionScopeIndex n s)"
    and "\<forall>i. length (scopes s) \<le> i \<and> i < length (scopes s3) \<longrightarrow> block (scopes s3 ! i) = n"
    and "ownBindings n (scopes s3 ! c) =
           ownBindings n (scopes s ! c) @ (if isFunctionDeclaration n then functionNameBindings n else [])"
    and "stype (scopes s3 ! functionScopeIndex n s) = Function"
    and "upper (scopes s3 ! functionScopeIndex n s) =
           Some (if isNamedFunctionExpression n then length (scopes s) else c)"
    and "variables (scopes s3 ! functionScopeIndex n s) = []"
    and "isNamedFunctionExpression n \<Longrightarrow>
           stype (scopes s3 ! length (scopes s)) = FunctionExpressionName \<and>
           upper (scopes s3 ! length (scopes s)) = Some c \<and>
           variables (scopes s3 ! length (scopes s)) = functionNameBindings n"
    and "good N s \<Longrightarrow> n \<notin> N \<Longrightarrow> good N s3"
    by blast+
qed

lemma function_body_grows:
  assumes "(case b of
              None \<Rightarrow> Inr s4
            | Some bd \<Rightarrow>
                if isBlockStatement bd then visit_list opts (children bd) s4
                else visit opts bd s4) = Inr s5"
  shows "grows (nodesOf (opt b)) s4 s5"
proof (cases b)
  case None
  with assms show ?thesis by simp
next
  case (Some bd)
  show ?thesis
  proof (cases "isBlockStatement bd")
    case True
    with assms Some have "visit_list opts (children bd) s4 = Inr s5" by simp
    moreover have "nodesOf (children bd) \<subseteq> nodesOf (opt b)"
      using Some by (auto dest: children_subnodes)
    ultimately show ?thesis by (rule grows_visit_list)
  next
    case False
    with assms Some have "visit opts bd s4 = Inr s5" by simp
    moreover have "set (subnodes bd) \<subseteq> nodesOf (opt b)"
      using Some by simp
    ultimately show ?thesis by (rule grows_visit)
  qed
qed

lemma filter_upt_all: "\<forall>i. a \<le> i \<and> i < b \<longrightarrow> P i \<Longrightarrow> filter P [a..<b] = [a..<b]"
  by (simp add: filter_id_conv)

lemma visit_namedExpression:
  "visit scriptOptions namedExpression globalOpen = Inr namedExpressionResult"
  by (simp add: namedExpression_def namedExpressionResult_def globalOpen_def scriptOptions_def
      noScopes_def nest_defs nest_def Let_def visitFunction.simps nestFunctionScopes_def
      patternLeaves_def parameterCallback_def currentScope_def scope_define_def updScope_def
      close.simps closeScope_def isVariableScopeType_def declares_def)

text \<open>
  Claim C2. The visit of a function defines the name of a function declaration in the
  scope that is current at entry, and nothing there for any other function. The scopes
  created for the function are its Function scope, preceded for a named function
  expression by the FunctionExpressionName scope, which lies under the scope current at
  entry and binds the name; the Function scope lies under the FunctionExpressionName
  scope when there is one and under the scope current at entry otherwise. The bindings
  of the function in its Function scope are the Parameter bindings of its parameters,
  from left to right, each with the position of its parameter.
\<close>

theorem function_name_scopes_and_parameters:
  assumes "isFunctionNode n" and "visit opts n s = Inr s'" and "currentScope s = Inr c"
    and "c < length (scopes s)" and "good (nodesOf (functionParams n)) s"
  shows "ownBindings n (scopes s' ! c) =
           ownBindings n (scopes s ! c) @ (if isFunctionDeclaration n then functionNameBindings n else [])
     \<and> newScopesOf n s s' = [length (scopes s)..<Suc (functionScopeIndex n s)]
     \<and> (isNamedFunctionExpression n \<longrightarrow>
          stype (scopes s' ! length (scopes s)) = FunctionExpressionName \<and>
          upper (scopes s' ! length (scopes s)) = Some c \<and>
          ownBindings n (scopes s' ! length (scopes s)) = functionNameBindings n)
     \<and> stype (scopes s' ! functionScopeIndex n s) = Function
     \<and> upper (scopes s' ! functionScopeIndex n s) =
          Some (if isNamedFunctionExpression n then length (scopes s) else c)
     \<and> ownBindings n (scopes s' ! functionScopeIndex n s) =
          parameterBindings n 0 (functionParams n)"
proof -
  let ?ps = "functionParams n" and ?b = "functionBody n"
  let ?k = "length (scopes s)" and ?f = "functionScopeIndex n s"
  let ?N = "nodesOf ?ps \<union> nodesOf (opt ?b)"
  have notin: "n \<notin> ?N" using function_nodes [OF assms(1)] by simp
  have np: "n \<notin> nodesOf ?ps" using function_nodes(1) [OF assms(1)] .
  from assms(1,2) have "visitFunction opts n ?ps ?b s = Inr s'"
    by (simp add: visit_function)
  then obtain s3 s4 s5 where
    s3: "nestFunctionScopes opts n s = Inr s3"
    and s4: "visitParams opts n ?ps 0 s3 = Inr s4"
    and s5: "(case ?b of
                None \<Rightarrow> Inr s4
              | Some bd \<Rightarrow>
                  if isBlockStatement bd then visit_list opts (children bd) s4
                  else visit opts bd s4) = Inr s5"
    and s': "s' = close n s5"
    by (auto simp: visitFunction.simps)
  note n3 = nestFunctionScopes_facts [OF s3 assms(3,4)]
  have kf: "?k \<le> ?f" by (simp add: functionScopeIndex_def)
  have f3: "?f < length (scopes s3)" using n3(1) by simp
  have c3: "c < length (scopes s3)" using assms(4) kf f3 by simp
  have cf: "c \<noteq> ?f" using assms(4) kf by simp
  have g3: "good (nodesOf ?ps) s3" using n3(9) [OF assms(5) np] .
  from visitParams_facts [OF s4 n3(2) f3 g3 np _ notin]
  have p: "owned n ?f (parameterBindings n 0 ?ps) s3 s4" "linked None s3 s4" "newBlocks ?N s3 s4"
    by simp_all
  have gp: "grows (insert n (nodesOf ?ps)) s3 s4"
    by (rule grows_visitParams [OF s4]) auto
  have gb: "grows ?N s4 s'"
    using grows_mono [OF function_body_grows [OF s5], of ?N] s' by (simp add: grows_pushes)
  have len34: "length (scopes s3) \<le> length (scopes s4)" using p(1) by (simp add: owned_def)
  have len4': "length (scopes s4) \<le> length (scopes s')" using gb by (simp add: grows_def)
  have f4: "?f < length (scopes s4)" and c4: "c < length (scopes s4)"
    using f3 c3 len34 by simp_all
  have kept: "stype (scopes s' ! i) = stype (scopes s3 ! i)"
    "upper (scopes s' ! i) = upper (scopes s3 ! i)"
    "block (scopes s' ! i) = block (scopes s3 ! i)" if "i < length (scopes s3)" for i
    using that len34 grows_stype [OF gp that] grows_stype [OF gb, of i]
      grows_upper [OF gp that] grows_upper [OF gb, of i]
      grows_block [OF gp that] grows_block [OF gb, of i]
    by simp_all
  have own: "ownBindings n (scopes s' ! i) = ownBindings n (scopes s4 ! i)"
    if "i < length (scopes s4)" for i
    using ownBindings_grows [OF gb notin that] .
  have own34: "ownBindings n (scopes s4 ! i) = ownBindings n (scopes s3 ! i)"
    if "i < length (scopes s3)" "i \<noteq> ?f" for i
    using p(1) that len34 by (simp add: owned_def)
  have a: "ownBindings n (scopes s' ! c) =
      ownBindings n (scopes s ! c) @ (if isFunctionDeclaration n then functionNameBindings n else [])"
    using own [OF c4] own34 [OF c3 cf] n3(4) by simp
  have b: "newScopesOf n s s' = [?k..<Suc ?f]"
  proof -
    have l1: "?k \<le> length (scopes s3)" using kf f3 by simp
    have l2: "length (scopes s3) \<le> length (scopes s')" using len34 len4' by simp
    have first: "filter (\<lambda>i. block (scopes s' ! i) = n) [?k..<length (scopes s3)] =
        [?k..<length (scopes s3)]"
      using kept(3) n3(3) by (intro filter_upt_all) auto
    have "block (scopes s' ! i) \<noteq> n" if i: "length (scopes s3) \<le> i" "i < length (scopes s')" for i
    proof (cases "i < length (scopes s4)")
      case True
      with p(3) i have "block (scopes s4 ! i) \<in> ?N" by (simp add: newBlocks_def)
      with grows_block [OF gb True] notin show ?thesis by auto
    next
      case False
      with gb i have "scopeNew ?N (scopes s' ! i)" by (simp add: grows_def)
      with notin show ?thesis by (auto simp: scopeNew_def)
    qed
    then have "newScopesOf n s3 s' = []"
      by (auto simp: newScopesOf_def filter_empty_conv)
    with newScopesOf_split [OF l1 l2, of n] first n3(1) show ?thesis by simp
  qed
  have c: "stype (scopes s' ! ?k) = FunctionExpressionName \<and> upper (scopes s' ! ?k) = Some c \<and>
      ownBindings n (scopes s' ! ?k) = functionNameBindings n" if nfe: "isNamedFunctionExpression n"
  proof -
    have f: "?f = Suc ?k" using nfe by (simp add: functionScopeIndex_def)
    then have k3: "?k < length (scopes s3)" "?k \<noteq> ?f" using f3 by simp_all
    then have k4: "?k < length (scopes s4)" using len34 by simp
    have "ownBindings n (scopes s3 ! ?k) = functionNameBindings n"
      using n3(8) [OF nfe] by (simp add: ownBindings_own)
    with own [OF k4] own34 [OF k3] kept(1,2) [OF k3(1)] n3(8) [OF nfe] show ?thesis by simp
  qed
  have d: "stype (scopes s' ! ?f) = Function"
    "upper (scopes s' ! ?f) = Some (if isNamedFunctionExpression n then ?k else c)"
    using kept(1,2) [OF f3] n3(5,6) by simp_all
  have e: "ownBindings n (scopes s' ! ?f) = parameterBindings n 0 ?ps"
  proof -
    have "ownBindings n (scopes s3 ! ?f) = []" using n3(7) by (simp add: ownBindings_def)
    with own [OF f4] p(1) show ?thesis by (simp add: owned_def)
  qed
  from a b c d e show ?thesis by blast
qed

text \<open>The hypotheses of C2 hold for \<open>function f(p, q) { }\<close> in the Global scope.\<close>

theorem function_name_scopes_and_parameters_witness:
  "isFunctionNode namedExpression
   \<and> visit scriptOptions namedExpression globalOpen = Inr namedExpressionResult
   \<and> currentScope globalOpen = Inr 0 \<and> 0 < length (scopes globalOpen)
   \<and> good (nodesOf (functionParams namedExpression)) globalOpen
   \<and> ownBindings namedExpression (scopes namedExpressionResult ! 0) =
       ownBindings namedExpression (scopes globalOpen ! 0)
       @ (if isFunctionDeclaration namedExpression then functionNameBindings namedExpression else [])
   \<and> newScopesOf namedExpression globalOpen namedExpressionResult =
       [length (scopes globalOpen)..<Suc (functionScopeIndex namedExpression globalOpen)]
   \<and> isNamedFunctionExpression namedExpression
   \<and> stype (scopes namedExpressionResult ! length (scopes globalOpen)) = FunctionExpressionName
   \<and> upper (scopes namedExpressionResult ! length (scopes globalOpen)) = Some 0
   \<and> ownBindings namedExpression (scopes namedExpressionResult ! length (scopes globalOpen)) =
       functionNameBindings namedExpression
   \<and> stype (scopes namedExpressionResult ! functionScopeIndex namedExpression globalOpen) = Function
   \<and> upper (scopes namedExpressionResult ! functionScopeIndex namedExpression globalOpen) =
       Some (if isNamedFunctionExpression namedExpression then length (scopes globalOpen) else 0)
   \<and> ownBindings namedExpression
         (scopes namedExpressionResult ! functionScopeIndex namedExpression globalOpen) =
       parameterBindings namedExpression 0 (functionParams namedExpression)"
proof -
  have f: "isFunctionNode namedExpression" by (simp add: namedExpression_def)
  have c: "currentScope globalOpen = Inr 0"
    by (simp add: globalOpen_def noScopes_def nest_defs)
  have l: "0 < length (scopes globalOpen)"
    by (simp add: globalOpen_def noScopes_def nest_defs)
  have g: "good (nodesOf (functionParams namedExpression)) globalOpen"
    by (simp add: good_def namedExpression_def globalOpen_def noScopes_def nest_defs nest_def
        Let_def set_subnodes)
  have e: "isNamedFunctionExpression namedExpression"
    by (simp add: isNamedFunctionExpression_def namedExpression_def)
  from function_name_scopes_and_parameters [OF f visit_namedExpression c l g]
    f visit_namedExpression c l g e
  show ?thesis by (intro conjI) blast+
qed

end
